theory Spec2Isabelle
  imports Complex_Main "HOL-Library.Word" "HOL-Library.AList"
begin

unbundle bit_operations_syntax

section \<open>Worker pool configuration (include/core/thread/ThreadPool.hpp)\<close>

text \<open>
  The header selects extra configuration fields and extra validation checks with the
  preprocessor. The three possible builds are the three values of \<open>Platform\<close>; the
  platform fields are always present in the record and are only read on the platform
  that declares them.
\<close>

datatype Platform = APPLE_ARM | LINUX_X64 | OTHER_PLATFORM

record ThreadPoolConfig =
  minThreads :: nat
  maxThreads :: nat
  queueSize :: nat
  stackSize :: nat
  usePerformanceCores :: bool
  useEfficiencyCores :: bool
  performanceCoreCount :: nat
  efficiencyCoreCount :: nat
  useHyperthreading :: bool
  physicalCoreCount :: nat
  logicalCoreCount :: nat

definition validate_pool :: "Platform \<Rightarrow> ThreadPoolConfig \<Rightarrow> bool" where
  "validate_pool pf c =
     (if minThreads c > maxThreads c then False
      else if minThreads c = 0 then False
      else if stackSize c = 0 then False
      else (case pf of
              APPLE_ARM \<Rightarrow>
                (if usePerformanceCores c \<and> performanceCoreCount c = 0 then False
                 else if useEfficiencyCores c \<and> efficiencyCoreCount c = 0 then False
                 else True)
            | LINUX_X64 \<Rightarrow>
                (if useHyperthreading c \<and> logicalCoreCount c \<le> physicalCoreCount c then False
                 else True)
            | OTHER_PLATFORM \<Rightarrow> True))"

section \<open>Floating-point arithmetic\<close>

text \<open>
  The load balancer computes with C++ \<open>double\<close>. Its model takes the arithmetic as a
  parameter: a value of \<open>'d FloatOps\<close> gives, for a type \<open>'d\<close> of floating-point values, the
  operations the source applies to them. Every operator application of the source is one
  application of the corresponding field; \<open>lit\<close> is the value of a decimal literal and
  \<open>of_size\<close> the conversion of a non-negative integer. The properties of the balancer are
  proved for every such arithmetic.
\<close>

record 'd FloatOps =
  fadd :: "'d \<Rightarrow> 'd \<Rightarrow> 'd"
  fsub :: "'d \<Rightarrow> 'd \<Rightarrow> 'd"
  fmul :: "'d \<Rightarrow> 'd \<Rightarrow> 'd"
  fdiv :: "'d \<Rightarrow> 'd \<Rightarrow> 'd"
  flt :: "'d \<Rightarrow> 'd \<Rightarrow> bool"
  fgt :: "'d \<Rightarrow> 'd \<Rightarrow> bool"
  fabs :: "'d \<Rightarrow> 'd"
  of_size :: "nat \<Rightarrow> 'd"
  lit :: "rat \<Rightarrow> 'd"
  dbl_max :: "'d"

text \<open>\<open>std::min(a, b)\<close> is \<open>(b < a) ? b : a\<close> and \<open>std::max(a, b)\<close> is \<open>(a < b) ? b : a\<close>.\<close>

definition std_min :: "'d FloatOps \<Rightarrow> 'd \<Rightarrow> 'd \<Rightarrow> 'd" where
  "std_min fp a b = (if flt fp b a then b else a)"

definition std_max :: "'d FloatOps \<Rightarrow> 'd \<Rightarrow> 'd \<Rightarrow> 'd" where
  "std_max fp a b = (if flt fp a b then b else a)"

subsection \<open>IEEE 754 binary64\<close>

text \<open>
  The examples compute in binary64 with rounding to nearest, ties to even. A value is a
  sign (\<open>True\<close> for negative) with a magnitude, an infinity with its sign, or NaN; the
  magnitude of a finite value is a non-negative rational of the form \<open>n * 2^e\<close> with
  \<open>n < 2^53\<close> and \<open>-1074 \<le> e \<le> 971\<close>, which the operations preserve.
\<close>

datatype double = Finite bool rat | Infinity bool | NaN

fun bitlength :: "nat \<Rightarrow> nat" where
  "bitlength n = (if n = 0 then 0 else Suc (bitlength (n div 2)))"

declare bitlength.simps [simp del]

definition pow2 :: "int \<Rightarrow> rat" where
  "pow2 e = (if 0 \<le> e then of_int (2 ^ nat e) else 1 / of_int (2 ^ nat (- e)))"

text \<open>For \<open>x > 0\<close>, the exponent \<open>e\<close> with \<open>2^e \<le> x < 2^(e+1)\<close>.\<close>

definition ilog2 :: "rat \<Rightarrow> int" where
  "ilog2 x =
     (if 1 \<le> x then int (bitlength (nat \<lfloor>x\<rfloor>)) - 1
      else (let k = int (bitlength (nat \<lfloor>1 / x\<rfloor>)) - 1
            in if x * pow2 k = 1 then - k else - (k + 1)))"

definition round_even :: "rat \<Rightarrow> int" where
  "round_even y =
     (let n = \<lfloor>y\<rfloor>; f = y - of_int n
      in if f < 1 / 2 then n else if 1 / 2 < f then n + 1 else if even n then n else n + 1)"

text \<open>
  Rounding of an exact magnitude \<open>x\<close> with sign \<open>s\<close>: to a multiple of \<open>2^(e-52)\<close>, where
  \<open>e\<close> is the exponent of \<open>x\<close> and at least -1022 (below that the values are subnormal);
  a result of \<open>2^1024\<close> or more is an infinity.
\<close>

definition rnd :: "bool \<Rightarrow> rat \<Rightarrow> double" where
  "rnd s x =
     (if x = 0 then Finite s 0
      else (let e = max (ilog2 x) (- 1022);
                q = pow2 (e - 52);
                n = round_even (x / q)
            in if 1024 \<le> e \<or> (e = 1023 \<and> n = 2 ^ 53) then Infinity s
               else Finite s (of_int n * q)))"

fun d_val :: "double \<Rightarrow> rat" where
  "d_val (Finite s m) = (if s then - m else m)"
| "d_val (Infinity s) = 0"
| "d_val NaN = 0"

fun d_add :: "double \<Rightarrow> double \<Rightarrow> double" where
  "d_add NaN b = NaN"
| "d_add a NaN = NaN"
| "d_add (Infinity s) (Infinity t) = (if s = t then Infinity s else NaN)"
| "d_add (Infinity s) (Finite t n) = Infinity s"
| "d_add (Finite s m) (Infinity t) = Infinity t"
| "d_add (Finite s m) (Finite t n) =
     (let v = d_val (Finite s m) + d_val (Finite t n)
      in if v = 0 then Finite (s \<and> t) 0 else rnd (v < 0) \<bar>v\<bar>)"

fun d_neg :: "double \<Rightarrow> double" where
  "d_neg (Finite s m) = Finite (\<not> s) m"
| "d_neg (Infinity s) = Infinity (\<not> s)"
| "d_neg NaN = NaN"

definition d_sub :: "double \<Rightarrow> double \<Rightarrow> double" where
  "d_sub a b = d_add a (d_neg b)"

fun d_mul :: "double \<Rightarrow> double \<Rightarrow> double" where
  "d_mul NaN b = NaN"
| "d_mul a NaN = NaN"
| "d_mul (Infinity s) (Infinity t) = Infinity (s \<noteq> t)"
| "d_mul (Infinity s) (Finite t n) = (if n = 0 then NaN else Infinity (s \<noteq> t))"
| "d_mul (Finite s m) (Infinity t) = (if m = 0 then NaN else Infinity (s \<noteq> t))"
| "d_mul (Finite s m) (Finite t n) = rnd (s \<noteq> t) (m * n)"

fun d_div :: "double \<Rightarrow> double \<Rightarrow> double" where
  "d_div NaN b = NaN"
| "d_div a NaN = NaN"
| "d_div (Infinity s) (Infinity t) = NaN"
| "d_div (Infinity s) (Finite t n) = Infinity (s \<noteq> t)"
| "d_div (Finite s m) (Infinity t) = Finite (s \<noteq> t) 0"
| "d_div (Finite s m) (Finite t n) =
     (if n = 0 then (if m = 0 then NaN else Infinity (s \<noteq> t))
      else rnd (s \<noteq> t) (m / n))"

fun d_less :: "double \<Rightarrow> double \<Rightarrow> bool" where
  "d_less NaN b = False"
| "d_less a NaN = False"
| "d_less (Infinity s) (Infinity t) = (s \<and> \<not> t)"
| "d_less (Infinity s) (Finite t n) = s"
| "d_less (Finite s m) (Infinity t) = (\<not> t)"
| "d_less (Finite s m) (Finite t n) = (d_val (Finite s m) < d_val (Finite t n))"

fun d_abs :: "double \<Rightarrow> double" where
  "d_abs (Finite s m) = Finite False m"
| "d_abs (Infinity s) = Infinity False"
| "d_abs NaN = NaN"

text \<open>\<open>std::numeric_limits<double>::max()\<close>, which is \<open>(2^53 - 1) * 2^971\<close>.\<close>

definition DBL_MAX :: double where
  "DBL_MAX = Finite False 179769313486231570814527423731704356798070567525844996598917476803157260780028538760589558632766878171540458953514382464234321326889464182768467546703537516986049910576551282076245490090389328944075868508455133942304583236903222948165808559332123348274797826204144723168738177180919299881250404026184124858368"

definition binary64 :: "double FloatOps" where
  "binary64 =
     \<lparr> fadd = d_add, fsub = d_sub, fmul = d_mul, fdiv = d_div,
       flt = d_less, fgt = (\<lambda>a b. d_less b a), fabs = d_abs,
       of_size = (\<lambda>n. rnd False (of_nat n)),
       lit = (\<lambda>x. rnd (x < 0) \<bar>x\<bar>),
       dbl_max = DBL_MAX \<rparr>"

section \<open>Load balancer (src/core/balancer/LoadBalancer.cpp)\<close>

text \<open>
  The metrics, weights, thresholds and scores are floating-point values of the type
  \<open>'d\<close> of the arithmetic in use. The size_t decision counters are 64-bit words; the
  round-robin cursor is only ever stored reduced modulo a vector length, so it is a
  \<^typ>\<open>nat\<close>.
\<close>

datatype BalancingStrategy =
  ResourceAware | WorkloadSpecific | HybridAdaptive | PriorityAdaptive | LeastLoaded | RoundRobin

datatype TaskType =
  CPU_INTENSIVE | IO_INTENSIVE | MEMORY_INTENSIVE | NETWORK_INTENSIVE | MIXED

record 'd KernelMetrics =
  cpuUsage :: 'd
  memoryUsage :: 'd
  networkBandwidth :: 'd
  diskIO :: 'd
  energyConsumption :: 'd
  cpuTaskEfficiency :: 'd
  ioTaskEfficiency :: 'd
  memoryTaskEfficiency :: 'd
  networkTaskEfficiency :: 'd

record TaskDescriptor =
  data :: "8 word list"
  priority :: int
  enqueueTime :: nat
  type :: TaskType
  estimatedMemoryUsage :: nat
  estimatedCpuTime :: nat

record 'd LoadBalancer =
  strategy :: string
  strategyEnum :: BalancingStrategy
  rrIdx :: nat
  cpuWeight :: 'd
  memoryWeight :: 'd
  networkWeight :: 'd
  energyWeight :: 'd
  resourceThreshold :: 'd
  workloadThreshold :: 'd
  resourceAwareDecisions :: "64 word"
  workloadSpecificDecisions :: "64 word"
  totalDecisions :: "64 word"

text \<open>One call of \<open>IKernel::scheduleTask\<close>: the index of the kernel it is made on, the
  bytes captured by the closure, and the priority argument.\<close>

record ScheduleCall =
  kernel :: nat
  payload :: "8 word list"
  prio :: int

text \<open>Indexing a vector out of range is undefined behaviour in the source; the model
  makes it an error value, and the theorems show that \<open>balance\<close> never produces it.\<close>

datatype lb_error = OutOfRange

definition LoadBalancer_new :: "'d FloatOps \<Rightarrow> 'd LoadBalancer" where
  "LoadBalancer_new fp =
     \<lparr> strategy = ''hybrid_adaptive'', strategyEnum = HybridAdaptive, rrIdx = 0,
       cpuWeight = lit fp (3 / 10), memoryWeight = lit fp (25 / 100),
       networkWeight = lit fp (25 / 100), energyWeight = lit fp (2 / 10),
       resourceThreshold = lit fp (8 / 10), workloadThreshold = lit fp (7 / 10),
       resourceAwareDecisions = 0, workloadSpecificDecisions = 0, totalDecisions = 0 \<rparr>"

text \<open>In \<open>task.estimatedMemoryUsage / (1024 * 1024 * 1024.0)\<close> the divisor is the integer
  \<open>1024 * 1024\<close> converted and multiplied by \<open>1024.0\<close>.\<close>

definition calculateResourceScore ::
  "'d FloatOps \<Rightarrow> 'd LoadBalancer \<Rightarrow> 'd KernelMetrics \<Rightarrow> TaskDescriptor \<Rightarrow> 'd" where
  "calculateResourceScore fp lb m task =
     (let cpuScore = fmul fp (fsub fp (lit fp 1) (cpuUsage m)) (cpuWeight lb);
          memoryScore0 = fmul fp (fsub fp (lit fp 1) (memoryUsage m)) (memoryWeight lb);
          networkScore = fmul fp (fdiv fp (networkBandwidth m) (lit fp 1000)) (networkWeight lb);
          energyScore =
            fmul fp (fsub fp (lit fp 1) (fdiv fp (energyConsumption m) (lit fp 100))) (energyWeight lb);
          memoryScore =
            (if estimatedMemoryUsage task > 0
             then fmul fp memoryScore0
                    (fsub fp (lit fp 1)
                       (fdiv fp (of_size fp (estimatedMemoryUsage task))
                          (fmul fp (of_size fp (1024 * 1024)) (lit fp 1024))))
             else memoryScore0)
      in fadd fp (fadd fp (fadd fp cpuScore memoryScore) networkScore) energyScore)"

definition calculateWorkloadScore :: "'d FloatOps \<Rightarrow> 'd KernelMetrics \<Rightarrow> TaskDescriptor \<Rightarrow> 'd" where
  "calculateWorkloadScore fp m task =
     (let efficiencyScore =
            (case type task of
               CPU_INTENSIVE \<Rightarrow>
                 fmul fp (cpuTaskEfficiency m)
                   (fsub fp (lit fp 1) (fmul fp (cpuUsage m) (lit fp (3 / 10))))
             | IO_INTENSIVE \<Rightarrow>
                 fmul fp (ioTaskEfficiency m)
                   (fadd fp (lit fp 1) (fmul fp (fdiv fp (diskIO m) (lit fp 1000)) (lit fp (1 / 10))))
             | MEMORY_INTENSIVE \<Rightarrow>
                 fmul fp (memoryTaskEfficiency m)
                   (fsub fp (lit fp 1) (fmul fp (memoryUsage m) (lit fp (3 / 10))))
             | NETWORK_INTENSIVE \<Rightarrow>
                 fmul fp (networkTaskEfficiency m)
                   (fadd fp (lit fp 1)
                      (fmul fp (fdiv fp (networkBandwidth m) (lit fp 1000)) (lit fp (1 / 10))))
             | MIXED \<Rightarrow>
                 fdiv fp
                   (fadd fp (fadd fp (fadd fp (cpuTaskEfficiency m) (ioTaskEfficiency m))
                               (memoryTaskEfficiency m))
                      (networkTaskEfficiency m))
                   (lit fp 4))
      in fsub fp (lit fp 1) (std_max fp (lit fp 0) (std_min fp (lit fp 1) efficiencyScore)))"

text \<open>The test \<open>std::abs(score - firstScore) > 0.001\<close> of the selection loops.\<close>

definition differs :: "'d FloatOps \<Rightarrow> 'd \<Rightarrow> 'd \<Rightarrow> bool" where
  "differs fp score firstScore = fgt fp (fabs fp (fsub fp score firstScore)) (lit fp (1 / 1000))"

text \<open>The loop \<open>for (i = 1; i < metrics.size(); ++i)\<close> that clears \<open>allEqual\<close> and
  breaks at the first kernel whose score differs from the first one's. The argument
  list is \<open>metrics[1..]\<close>.\<close>

fun allEqual_loop ::
  "'d FloatOps \<Rightarrow> ('d KernelMetrics \<Rightarrow> 'd) \<Rightarrow> 'd \<Rightarrow> 'd KernelMetrics list \<Rightarrow> bool" where
  "allEqual_loop fp f firstScore [] = True"
| "allEqual_loop fp f firstScore (m # ms) =
     (if differs fp (f m) firstScore then False else allEqual_loop fp f firstScore ms)"

fun allEqual_hybrid_loop ::
  "'d FloatOps \<Rightarrow> ('d KernelMetrics \<Rightarrow> 'd) \<Rightarrow> ('d KernelMetrics \<Rightarrow> 'd) \<Rightarrow> 'd \<Rightarrow> 'd
     \<Rightarrow> 'd KernelMetrics list \<Rightarrow> bool" where
  "allEqual_hybrid_loop fp f g firstResourceScore firstWorkloadScore [] = True"
| "allEqual_hybrid_loop fp f g firstResourceScore firstWorkloadScore (m # ms) =
     (if differs fp (f m) firstResourceScore \<or> differs fp (g m) firstWorkloadScore then False
      else allEqual_hybrid_loop fp f g firstResourceScore firstWorkloadScore ms)"

text \<open>The loop \<open>for (i = 0; i < metrics.size(); ++i) if (score < bestScore) ...\<close>;
  the list is \<open>metrics[i..]\<close> and the pair is \<open>(bestScore, bestKernel)\<close>.\<close>

fun best_loop ::
  "'d FloatOps \<Rightarrow> ('d KernelMetrics \<Rightarrow> 'd) \<Rightarrow> 'd KernelMetrics list \<Rightarrow> nat \<Rightarrow> 'd \<times> nat
     \<Rightarrow> 'd \<times> nat" where
  "best_loop fp f [] i best = best"
| "best_loop fp f (m # ms) i (bestScore, bestKernel) =
     (if flt fp (f m) bestScore then best_loop fp f ms (i + 1) (f m, i)
      else best_loop fp f ms (i + 1) (bestScore, bestKernel))"

definition selectByResourceAware ::
  "'d FloatOps \<Rightarrow> 'd LoadBalancer \<Rightarrow> 'd KernelMetrics list \<Rightarrow> TaskDescriptor
     \<Rightarrow> lb_error + (nat \<times> 'd LoadBalancer)" where
  "selectByResourceAware fp lb metrics task =
     (case metrics of
        [] \<Rightarrow> Inl OutOfRange
      | m0 # rest \<Rightarrow>
          (let firstScore = calculateResourceScore fp lb m0 task;
               allEqual = allEqual_loop fp (\<lambda>m. calculateResourceScore fp lb m task) firstScore rest
           in if allEqual
              then Inr (rrIdx lb mod length metrics,
                        lb\<lparr>rrIdx := (rrIdx lb + 1) mod length metrics\<rparr>)
              else Inr (snd (best_loop fp (\<lambda>m. calculateResourceScore fp lb m task) metrics 0
                               (dbl_max fp, 0)),
                        lb)))"

definition selectByWorkloadSpecific ::
  "'d FloatOps \<Rightarrow> 'd LoadBalancer \<Rightarrow> 'd KernelMetrics list \<Rightarrow> TaskDescriptor
     \<Rightarrow> lb_error + (nat \<times> 'd LoadBalancer)" where
  "selectByWorkloadSpecific fp lb metrics task =
     Inr (snd (best_loop fp (\<lambda>m. calculateWorkloadScore fp m task) metrics 0 (dbl_max fp, 0)), lb)"

definition combinedScore ::
  "'d FloatOps \<Rightarrow> 'd LoadBalancer \<Rightarrow> TaskDescriptor \<Rightarrow> 'd KernelMetrics \<Rightarrow> 'd" where
  "combinedScore fp lb task m =
     (let resourceScore = calculateResourceScore fp lb m task;
          workloadScore = calculateWorkloadScore fp m task;
          (resourceWeight0, workloadWeight0) =
             (if type task \<noteq> MIXED then (lit fp (3 / 10), lit fp (7 / 10))
              else (lit fp (6 / 10), lit fp (4 / 10)));
          (resourceWeight, workloadWeight) =
             (if fgt fp resourceScore (resourceThreshold lb) then (lit fp (8 / 10), lit fp (2 / 10))
              else (resourceWeight0, workloadWeight0))
      in fadd fp (fmul fp resourceWeight resourceScore) (fmul fp workloadWeight workloadScore))"

definition selectByHybridAdaptive ::
  "'d FloatOps \<Rightarrow> 'd LoadBalancer \<Rightarrow> 'd KernelMetrics list \<Rightarrow> TaskDescriptor
     \<Rightarrow> lb_error + (nat \<times> 'd LoadBalancer)" where
  "selectByHybridAdaptive fp lb metrics task =
     (case metrics of
        [] \<Rightarrow> Inl OutOfRange
      | m0 # rest \<Rightarrow>
          (let firstResourceScore = calculateResourceScore fp lb m0 task;
               firstWorkloadScore = calculateWorkloadScore fp m0 task;
               allEqual = allEqual_hybrid_loop fp (\<lambda>m. calculateResourceScore fp lb m task)
                            (\<lambda>m. calculateWorkloadScore fp m task)
                            firstResourceScore firstWorkloadScore rest
           in if allEqual
              then Inr (rrIdx lb mod length metrics,
                        lb\<lparr>rrIdx := (rrIdx lb + 1) mod length metrics\<rparr>)
              else Inr (snd (best_loop fp (combinedScore fp lb task) metrics 0 (dbl_max fp, 0)),
                        lb)))"

text \<open>The two sums start at \<open>0.0\<close> and take the metrics in order; each is then divided by
  \<open>metrics.size()\<close> converted to \<open>double\<close>.\<close>

definition shouldSwitchStrategy :: "'d FloatOps \<Rightarrow> 'd KernelMetrics list \<Rightarrow> bool" where
  "shouldSwitchStrategy fp metrics =
     (let sumCpuUsage = foldl (\<lambda>acc m. fadd fp acc (cpuUsage m)) (lit fp 0) metrics;
          sumMemoryUsage = foldl (\<lambda>acc m. fadd fp acc (memoryUsage m)) (lit fp 0) metrics;
          avgCpuUsage = fdiv fp sumCpuUsage (of_size fp (length metrics));
          avgMemoryUsage = fdiv fp sumMemoryUsage (of_size fp (length metrics))
      in fgt fp avgCpuUsage (lit fp (9 / 10)) \<or> fgt fp avgMemoryUsage (lit fp (9 / 10)))"

text \<open>The body shared by the two dispatch loops of \<open>balance\<close>: the \<open>switch\<close> on
  \<open>strategyEnum\<close>, the counters, and the call of \<open>scheduleTask\<close> on
  \<open>kernels[selectedKernel]\<close>.\<close>

definition dispatchTask ::
  "'d FloatOps \<Rightarrow> nat \<Rightarrow> 'd KernelMetrics list \<Rightarrow> 'd LoadBalancer \<Rightarrow> TaskDescriptor
     \<Rightarrow> lb_error + ('d LoadBalancer \<times> ScheduleCall)" where
  "dispatchTask fp nkernels metrics lb task =
     (case (case strategyEnum lb of
              ResourceAware \<Rightarrow>
                map_sum id (\<lambda>(k, lb'). (k, lb'\<lparr>resourceAwareDecisions := resourceAwareDecisions lb' + 1\<rparr>))
                  (selectByResourceAware fp lb metrics task)
            | WorkloadSpecific \<Rightarrow>
                map_sum id (\<lambda>(k, lb'). (k, lb'\<lparr>workloadSpecificDecisions := workloadSpecificDecisions lb' + 1\<rparr>))
                  (selectByWorkloadSpecific fp lb metrics task)
            | HybridAdaptive \<Rightarrow> selectByHybridAdaptive fp lb metrics task
            | PriorityAdaptive \<Rightarrow> selectByResourceAware fp lb metrics task
            | LeastLoaded \<Rightarrow> selectByResourceAware fp lb metrics task
            | RoundRobin \<Rightarrow> selectByResourceAware fp lb metrics task) of
        Inl e \<Rightarrow> Inl e
      | Inr (selectedKernel, lb') \<Rightarrow>
          (if selectedKernel < nkernels
           then Inr (lb'\<lparr>totalDecisions := totalDecisions lb' + 1\<rparr>,
                     \<lparr>kernel = selectedKernel, payload = data task, prio = priority task\<rparr>)
           else Inl OutOfRange))"

fun dispatchAll ::
  "'d FloatOps \<Rightarrow> nat \<Rightarrow> 'd KernelMetrics list \<Rightarrow> 'd LoadBalancer \<Rightarrow> TaskDescriptor list
     \<Rightarrow> lb_error + ('d LoadBalancer \<times> ScheduleCall list)" where
  "dispatchAll fp nkernels metrics lb [] = Inr (lb, [])"
| "dispatchAll fp nkernels metrics lb (task # tasks) =
     (case dispatchTask fp nkernels metrics lb task of
        Inl e \<Rightarrow> Inl e
      | Inr (lb', c) \<Rightarrow>
          (case dispatchAll fp nkernels metrics lb' tasks of
             Inl e \<Rightarrow> Inl e
           | Inr (lb'', cs) \<Rightarrow> Inr (lb'', c # cs)))"

definition switchStrategy :: "'d LoadBalancer \<Rightarrow> 'd LoadBalancer" where
  "switchStrategy lb =
     (if strategyEnum lb = ResourceAware
      then lb\<lparr>strategyEnum := WorkloadSpecific, strategy := ''workload_specific''\<rparr>
      else lb\<lparr>strategyEnum := ResourceAware, strategy := ''resource_aware''\<rparr>)"

definition highPriority :: "TaskDescriptor list \<Rightarrow> TaskDescriptor list" where
  "highPriority tasks = filter (\<lambda>task. priority task \<ge> 7) tasks"

definition lowPriority :: "TaskDescriptor list \<Rightarrow> TaskDescriptor list" where
  "lowPriority tasks = filter (\<lambda>task. \<not> priority task \<ge> 7) tasks"

text \<open>\<open>balance(kernels, tasks, metrics)\<close>. The kernels are opaque handles; the result is
  the balancer after the call and the \<open>scheduleTask\<close> calls in the order they are made.\<close>

definition balance ::
  "'d FloatOps \<Rightarrow> 'd LoadBalancer \<Rightarrow> 'k list \<Rightarrow> TaskDescriptor list \<Rightarrow> 'd KernelMetrics list
     \<Rightarrow> lb_error + ('d LoadBalancer \<times> ScheduleCall list)" where
  "balance fp lb kernels tasks metrics =
     (if kernels = [] \<or> tasks = [] \<or> length metrics \<noteq> length kernels then Inr (lb, [])
      else
        (let lb1 = (if shouldSwitchStrategy fp metrics then switchStrategy lb else lb)
         in case dispatchAll fp (length kernels) metrics lb1 (highPriority tasks) of
              Inl e \<Rightarrow> Inl e
            | Inr (lb2, highCalls) \<Rightarrow>
                (case dispatchAll fp (length kernels) metrics lb2 (lowPriority tasks) of
                   Inl e \<Rightarrow> Inl e
                 | Inr (lb3, lowCalls) \<Rightarrow> Inr (lb3, highCalls @ lowCalls))))"

definition setResourceWeights :: "'d LoadBalancer \<Rightarrow> 'd \<Rightarrow> 'd \<Rightarrow> 'd \<Rightarrow> 'd \<Rightarrow> 'd LoadBalancer" where
  "setResourceWeights lb cpuW memoryW networkW energyW =
     lb\<lparr>cpuWeight := cpuW, memoryWeight := memoryW, networkWeight := networkW, energyWeight := energyW\<rparr>"

definition setAdaptiveThresholds :: "'d LoadBalancer \<Rightarrow> 'd \<Rightarrow> 'd \<Rightarrow> 'd LoadBalancer" where
  "setAdaptiveThresholds lb resourceT workloadT =
     lb\<lparr>resourceThreshold := resourceT, workloadThreshold := workloadT\<rparr>"

definition setStrategy :: "'d LoadBalancer \<Rightarrow> BalancingStrategy \<Rightarrow> 'd LoadBalancer" where
  "setStrategy lb s =
     lb\<lparr>strategyEnum := s,
        strategy := (case s of
                       ResourceAware \<Rightarrow> ''resource_aware''
                     | WorkloadSpecific \<Rightarrow> ''workload_specific''
                     | HybridAdaptive \<Rightarrow> ''hybrid_adaptive''
                     | LeastLoaded \<Rightarrow> ''least_loaded''
                     | RoundRobin \<Rightarrow> ''round_robin''
                     | PriorityAdaptive \<Rightarrow> ''priority_adaptive'')\<rparr>"

text \<open>A sequence of \<open>balance\<close> calls on one balancer. Each call is logged with the
  strategy the balancer holds when the call returns (the strategy its dispatch loops
  used) and the \<open>scheduleTask\<close> calls it made.\<close>

fun balance_seq ::
  "'d FloatOps \<Rightarrow> 'd LoadBalancer \<Rightarrow> ('k list \<times> TaskDescriptor list \<times> 'd KernelMetrics list) list
     \<Rightarrow> lb_error + ('d LoadBalancer \<times> (BalancingStrategy \<times> ScheduleCall list) list)" where
  "balance_seq fp lb [] = Inr (lb, [])"
| "balance_seq fp lb ((kernels, tasks, metrics) # rest) =
     (case balance fp lb kernels tasks metrics of
        Inl e \<Rightarrow> Inl e
      | Inr (lb', calls) \<Rightarrow>
          (case balance_seq fp lb' rest of
             Inl e \<Rightarrow> Inl e
           | Inr (lb'', logs) \<Rightarrow> Inr (lb'', (strategyEnum lb', calls) # logs)))"

subsection \<open>Vocabulary of the balancer properties\<close>

text \<open>The early return of \<open>balance\<close>.\<close>

definition noop :: "'k list \<Rightarrow> TaskDescriptor list \<Rightarrow> 'm list \<Rightarrow> bool" where
  "noop kernels tasks metrics = (kernels = [] \<or> tasks = [] \<or> length metrics \<noteq> length kernels)"

text \<open>The balancer as the dispatch loops of a call see it: after the adaptive switch.\<close>

definition effective :: "'d FloatOps \<Rightarrow> 'd LoadBalancer \<Rightarrow> 'd KernelMetrics list \<Rightarrow> 'd LoadBalancer" where
  "effective fp lb metrics = (if shouldSwitchStrategy fp metrics then switchStrategy lb else lb)"

text \<open>The strategies whose branch of the \<open>switch\<close> increments a per-strategy counter.\<close>

definition countedStrategy :: "BalancingStrategy \<Rightarrow> bool" where
  "countedStrategy s = (s = ResourceAware \<or> s = WorkloadSpecific)"

definition dispatched :: "(BalancingStrategy \<times> ScheduleCall list) list \<Rightarrow> nat" where
  "dispatched logs = sum_list (map (\<lambda>(s, calls). length calls) logs)"

definition dispatchedCounted :: "(BalancingStrategy \<times> ScheduleCall list) list \<Rightarrow> nat" where
  "dispatchedCounted logs =
     sum_list (map (\<lambda>(s, calls). if countedStrategy s then length calls else 0) logs)"

text \<open>Two balancers that score alike: same weights, threshold and strategy.\<close>

definition sameWeights :: "'d LoadBalancer \<Rightarrow> 'd LoadBalancer \<Rightarrow> bool" where
  "sameWeights a b =
     (cpuWeight a = cpuWeight b \<and> memoryWeight a = memoryWeight b \<and>
      networkWeight a = networkWeight b \<and> energyWeight a = energyWeight b \<and>
      resourceThreshold a = resourceThreshold b \<and> strategyEnum a = strategyEnum b)"

text \<open>
  The tie-break rule, stated apart from the selection functions so that it can be
  compared with them. The resource scores of a task are tied when no kernel's score
  differs from the first kernel's by more than 0.001 (as the source tests it), and
  likewise the workload scores. The cursor decides under ResourceAware, PriorityAdaptive,
  LeastLoaded and RoundRobin when the resource scores are tied, under HybridAdaptive
  when both the resource and the workload scores are tied, and never under
  WorkloadSpecific.
\<close>

definition resourceTie ::
  "'d FloatOps \<Rightarrow> 'd LoadBalancer \<Rightarrow> 'd KernelMetrics list \<Rightarrow> TaskDescriptor \<Rightarrow> bool" where
  "resourceTie fp lb metrics t =
     (\<forall>m \<in> set (tl metrics).
        \<not> differs fp (calculateResourceScore fp lb m t) (calculateResourceScore fp lb (hd metrics) t))"

definition workloadTie :: "'d FloatOps \<Rightarrow> 'd KernelMetrics list \<Rightarrow> TaskDescriptor \<Rightarrow> bool" where
  "workloadTie fp metrics t =
     (\<forall>m \<in> set (tl metrics).
        \<not> differs fp (calculateWorkloadScore fp m t) (calculateWorkloadScore fp (hd metrics) t))"

definition tieBreak ::
  "'d FloatOps \<Rightarrow> 'd LoadBalancer \<Rightarrow> 'd KernelMetrics list \<Rightarrow> TaskDescriptor \<Rightarrow> bool" where
  "tieBreak fp lb metrics t =
     (case strategyEnum lb of
        WorkloadSpecific \<Rightarrow> False
      | HybridAdaptive \<Rightarrow> resourceTie fp lb metrics t \<and> workloadTie fp metrics t
      | ResourceAware \<Rightarrow> resourceTie fp lb metrics t
      | PriorityAdaptive \<Rightarrow> resourceTie fp lb metrics t
      | LeastLoaded \<Rightarrow> resourceTie fp lb metrics t
      | RoundRobin \<Rightarrow> resourceTie fp lb metrics t)"

text \<open>The kernel chosen when the cursor does not decide: the first kernel whose score
  is below \<open>DBL_MAX\<close> and below the score of every kernel before it (kernel 0 if there
  is none); the score is the workload score under WorkloadSpecific, the combined score
  under HybridAdaptive and the resource score otherwise.\<close>

definition bestKernel ::
  "'d FloatOps \<Rightarrow> 'd LoadBalancer \<Rightarrow> 'd KernelMetrics list \<Rightarrow> TaskDescriptor \<Rightarrow> nat" where
  "bestKernel fp lb metrics t =
     snd (best_loop fp
            (case strategyEnum lb of
               WorkloadSpecific \<Rightarrow> (\<lambda>m. calculateWorkloadScore fp m t)
             | HybridAdaptive \<Rightarrow> combinedScore fp lb t
             | ResourceAware \<Rightarrow> (\<lambda>m. calculateResourceScore fp lb m t)
             | PriorityAdaptive \<Rightarrow> (\<lambda>m. calculateResourceScore fp lb m t)
             | LeastLoaded \<Rightarrow> (\<lambda>m. calculateResourceScore fp lb m t)
             | RoundRobin \<Rightarrow> (\<lambda>m. calculateResourceScore fp lb m t))
            metrics 0 (dbl_max fp, 0))"

text \<open>The kernels selected for a list of tasks from cursor \<open>r\<close>, and the cursor left
  behind, according to the tie-break rule.\<close>

fun selections ::
  "'d FloatOps \<Rightarrow> 'd LoadBalancer \<Rightarrow> 'd KernelMetrics list \<Rightarrow> nat \<Rightarrow> TaskDescriptor list
     \<Rightarrow> nat list \<times> nat" where
  "selections fp lb metrics r [] = ([], r)"
| "selections fp lb metrics r (t # ts) =
     (if tieBreak fp lb metrics t
      then (case selections fp lb metrics ((r + 1) mod length metrics) ts of
              (ks, r') \<Rightarrow> (r mod length metrics # ks, r'))
      else (case selections fp lb metrics r ts of
              (ks, r') \<Rightarrow> (bestKernel fp lb metrics t # ks, r')))"

subsection \<open>Inputs used in the examples\<close>

definition idleMetrics :: "double KernelMetrics" where
  "idleMetrics = \<lparr> cpuUsage = Finite False (1 / 2), memoryUsage = Finite False (1 / 2),
     networkBandwidth = Finite False 0, diskIO = Finite False 0,
     energyConsumption = Finite False 0, cpuTaskEfficiency = Finite False 0,
     ioTaskEfficiency = Finite False 0, memoryTaskEfficiency = Finite False 0,
     networkTaskEfficiency = Finite False 0 \<rparr>"

definition fastMetrics :: "double KernelMetrics" where
  "fastMetrics = idleMetrics\<lparr>cpuTaskEfficiency := Finite False 1\<rparr>"


definition fullMetrics :: "double KernelMetrics" where
  "fullMetrics = \<lparr> cpuUsage = Finite False 0, memoryUsage = Finite False 0,
     networkBandwidth = Finite False 1000, diskIO = Finite False 0,
     energyConsumption = Finite False 0, cpuTaskEfficiency = Finite False 0,
     ioTaskEfficiency = Finite False 0, memoryTaskEfficiency = Finite False 0,
     networkTaskEfficiency = Finite False 0 \<rparr>"

definition mkTask :: "8 word list \<Rightarrow> int \<Rightarrow> TaskType \<Rightarrow> TaskDescriptor" where
  "mkTask d p ty = \<lparr> data = d, priority = p, enqueueTime = 0, type = ty,
     estimatedMemoryUsage = 0, estimatedCpuTime = 0 \<rparr>"

definition minimalPool :: ThreadPoolConfig where
  "minimalPool = \<lparr> minThreads = 1, maxThreads = 1, queueSize = 0, stackSize = 1,
     usePerformanceCores = False, useEfficiencyCores = False,
     performanceCoreCount = 0, efficiencyCoreCount = 0,
     useHyperthreading = False, physicalCoreCount = 0, logicalCoreCount = 0 \<rparr>"
section \<open>Dynamic cache (include/core/cache/dynamic/DynamicCache.hpp)\<close>

text \<open>
  \<open>cache_\<close> is an unordered map from keys to (list iterator, entry) pairs and \<open>lruList_\<close>
  a list of keys, most recently used first. The map is modelled as an association list;
  the order in which the hash map enumerates its entries, which only \<open>clear\<close> depends
  on, is an argument of \<open>clear\<close>. The iterator of a key is the position of that key in
  \<open>lruList\<close>. The eviction callback is modelled by a flag telling whether one is
  installed and by the log of the calls made on it. Times are readings of the steady
  clock in seconds; the clock does not go backwards. Locks, the maintenance thread and the hit/miss counters are left out.
\<close>

record 'v Entry =
  edata :: 'v
  lastAccess :: nat
  ttlSeconds :: nat

record ('k, 'v) DynamicCache =
  allocatedSize :: nat
  defaultTTL :: nat
  cache :: "('k \<times> 'v Entry) list"
  lruList :: "'k list"
  evictionCallback :: bool
  callbackLog :: "('k \<times> 'v) list"
  evictions :: nat
  totalOperations :: nat
  cleanupThreadRunning :: bool

definition DynamicCache_new :: "nat \<Rightarrow> nat \<Rightarrow> ('k, 'v) DynamicCache" where
  "DynamicCache_new initialSize ttl =
     \<lparr> allocatedSize = initialSize, defaultTTL = ttl, cache = [], lruList = [],
       evictionCallback = False, callbackLog = [], evictions = 0, totalOperations = 0,
       cleanupThreadRunning = (initialSize > 0) \<rparr>"

definition size_c :: "('k, 'v) DynamicCache \<Rightarrow> nat" where
  "size_c c = length (cache c)"

definition setEvictionCallback :: "('k, 'v) DynamicCache \<Rightarrow> ('k, 'v) DynamicCache" where
  "setEvictionCallback c = c\<lparr>evictionCallback := True\<rparr>"

text \<open>\<open>if (evictionCallback_) evictionCallback_(key, data)\<close>.\<close>

definition notify :: "('k, 'v) DynamicCache \<Rightarrow> 'k \<Rightarrow> 'v \<Rightarrow> ('k, 'v) DynamicCache" where
  "notify c k v = (if evictionCallback c then c\<lparr>callbackLog := callbackLog c @ [(k, v)]\<rparr> else c)"

text \<open>The block that \<open>evictLRU\<close>, \<open>resize\<close> and \<open>batchPut\<close> each spell out: look the
  back key of the list up in the map and, if it is there, call the callback, erase the
  map entry, pop the list and count the eviction. The list is not empty here.\<close>

definition evictBack :: "('k, 'v) DynamicCache \<Rightarrow> ('k, 'v) DynamicCache" where
  "evictBack c =
     (let key = last (lruList c)
      in case map_of (cache c) key of
           None \<Rightarrow> c
         | Some e \<Rightarrow>
             (notify c key (edata e))
               \<lparr>cache := AList.delete key (cache c), lruList := butlast (lruList c),
                evictions := evictions c + 1\<rparr>)"

definition evictLRU :: "('k, 'v) DynamicCache \<Rightarrow> ('k, 'v) DynamicCache" where
  "evictLRU c = (if lruList c = [] then c else evictBack c)"

definition put_ttl :: "('k, 'v) DynamicCache \<Rightarrow> nat \<Rightarrow> 'k \<Rightarrow> 'v \<Rightarrow> nat \<Rightarrow> ('k, 'v) DynamicCache" where
  "put_ttl c now key v ttl =
     (let c' =
        (case map_of (cache c) key of
           Some e \<Rightarrow>
             c\<lparr>cache := AList.update key \<lparr>edata = v, lastAccess = now, ttlSeconds = ttl\<rparr> (cache c),
               lruList := key # remove1 key (lruList c)\<rparr>
         | None \<Rightarrow>
             (let c1 = (if length (cache c) \<ge> allocatedSize c then evictLRU c else c)
              in c1\<lparr>lruList := key # lruList c1,
                    cache := AList.update key \<lparr>edata = v, lastAccess = now, ttlSeconds = ttl\<rparr>
                               (cache c1)\<rparr>))
      in c'\<lparr>totalOperations := totalOperations c' + 1\<rparr>)"

definition put :: "('k, 'v) DynamicCache \<Rightarrow> nat \<Rightarrow> 'k \<Rightarrow> 'v \<Rightarrow> ('k, 'v) DynamicCache" where
  "put c now key v = put_ttl c now key v (defaultTTL c)"

definition remove :: "('k, 'v) DynamicCache \<Rightarrow> 'k \<Rightarrow> ('k, 'v) DynamicCache" where
  "remove c key =
     (case map_of (cache c) key of
        None \<Rightarrow> c
      | Some e \<Rightarrow>
          (notify c key (edata e))
            \<lparr>lruList := remove1 key (lruList c), cache := AList.delete key (cache c)\<rparr>)"

text \<open>\<open>clear\<close> calls the callback, if installed, on every entry in the order in which
  the hash map enumerates them; that order is the library's, and \<open>enumeration\<close> gives
  it as a rearrangement of the entries.\<close>

definition clear ::
  "(('k \<times> 'v Entry) list \<Rightarrow> ('k \<times> 'v Entry) list) \<Rightarrow> ('k, 'v) DynamicCache
     \<Rightarrow> ('k, 'v) DynamicCache" where
  "clear enumeration c =
     (fold (\<lambda>(key, e) c'. notify c' key (edata e)) (enumeration (cache c)) c)
       \<lparr>cache := [], lruList := []\<rparr>"

text \<open>\<open>for (i = 0; i < toEvict && !lruList_.empty(); ++i)\<close> of \<open>resize\<close>; the number is
  the count of iterations still allowed.\<close>

fun resize_loop :: "nat \<Rightarrow> ('k, 'v) DynamicCache \<Rightarrow> ('k, 'v) DynamicCache" where
  "resize_loop 0 c = c"
| "resize_loop (Suc n) c = (if lruList c = [] then c else resize_loop n (evictBack c))"

definition resize :: "('k, 'v) DynamicCache \<Rightarrow> nat \<Rightarrow> ('k, 'v) DynamicCache" where
  "resize c newSize =
     (let c1 = (if newSize < length (cache c)
                then resize_loop (length (cache c) - newSize) c else c)
      in c1\<lparr>allocatedSize := newSize\<rparr>)"

text \<open>The body of the loop of \<open>batchPut\<close>, and the loop over the pairs of the argument
  map in its iteration order.\<close>

definition batchPut_step ::
  "nat \<Rightarrow> nat \<Rightarrow> 'k \<times> 'v \<Rightarrow> ('k, 'v) DynamicCache \<Rightarrow> ('k, 'v) DynamicCache" where
  "batchPut_step now ttl kv c =
     (case kv of (key, v) \<Rightarrow>
        (case map_of (cache c) key of
           Some e \<Rightarrow>
             c\<lparr>cache := AList.update key \<lparr>edata = v, lastAccess = now, ttlSeconds = ttl\<rparr> (cache c),
               lruList := key # remove1 key (lruList c)\<rparr>
         | None \<Rightarrow>
             (let c1 = (if length (cache c) \<ge> allocatedSize c
                        then (if lruList c \<noteq> [] then evictBack c else c) else c)
              in c1\<lparr>lruList := key # lruList c1,
                    cache := AList.update key \<lparr>edata = v, lastAccess = now, ttlSeconds = ttl\<rparr>
                               (cache c1)\<rparr>)))"

definition batchPut ::
  "('k, 'v) DynamicCache \<Rightarrow> nat \<Rightarrow> ('k \<times> 'v) list \<Rightarrow> nat \<Rightarrow> ('k, 'v) DynamicCache" where
  "batchPut c now kvs ttl =
     (let c' = fold (batchPut_step now ttl) kvs c
      in c'\<lparr>totalOperations := totalOperations c' + length kvs\<rparr>)"

definition get :: "('k, 'v) DynamicCache \<Rightarrow> nat \<Rightarrow> 'k \<Rightarrow> 'v option \<times> ('k, 'v) DynamicCache" where
  "get c now key =
     (case map_of (cache c) key of
        None \<Rightarrow> (None, c)
      | Some e \<Rightarrow>
          (if ttlSeconds e > 0 \<and> now - lastAccess e \<ge> ttlSeconds e then (None, remove c key)
           else (Some (edata e),
                 c\<lparr>lruList := key # remove1 key (lruList c),
                   cache := AList.update key (e\<lparr>lastAccess := now\<rparr>) (cache c)\<rparr>)))"

text \<open>The operations of the capacity claim, each with the clock reading it runs at;
  \<open>Clear\<close> comes with the enumeration order of the hash map during that call.\<close>

datatype ('k, 'v) cache_op =
  Put 'k 'v | PutTTL 'k 'v nat | BatchPut "('k \<times> 'v) list" nat | Remove 'k
  | Clear "('k \<times> 'v Entry) list \<Rightarrow> ('k \<times> 'v Entry) list" | Resize nat
  | Get 'k | SetEvictionCallback

fun apply_op :: "('k, 'v) DynamicCache \<Rightarrow> nat \<times> ('k, 'v) cache_op \<Rightarrow> ('k, 'v) DynamicCache" where
  "apply_op c (now, Put k v) = put c now k v"
| "apply_op c (now, PutTTL k v ttl) = put_ttl c now k v ttl"
| "apply_op c (now, BatchPut kvs ttl) = batchPut c now kvs ttl"
| "apply_op c (now, Remove k) = remove c k"
| "apply_op c (now, Clear enumeration) = clear enumeration c"
| "apply_op c (now, Resize n) = resize c n"
| "apply_op c (now, Get k) = snd (get c now k)"
| "apply_op c (now, SetEvictionCallback) = setEvictionCallback c"

definition run_ops ::
  "('k, 'v) DynamicCache \<Rightarrow> (nat \<times> ('k, 'v) cache_op) list \<Rightarrow> ('k, 'v) DynamicCache" where
  "run_ops c ops = foldl apply_op c ops"

text \<open>Map and list hold the same keys, each once (P9 of the specification).\<close>

definition consistent :: "('k, 'v) DynamicCache \<Rightarrow> bool" where
  "consistent c =
     (distinct (map fst (cache c)) \<and> distinct (lruList c) \<and>
      set (lruList c) = set (map fst (cache c)))"

text \<open>The capacity bound the operations maintain: a cache of capacity 0 may hold one
  entry, any other cache at most \<open>allocatedSize\<close> entries.\<close>

definition bounded :: "('k, 'v) DynamicCache \<Rightarrow> bool" where
  "bounded c = (consistent c \<and> length (cache c) \<le> max 1 (allocatedSize c))"

section \<open>Recovery manager (core/recovery/RecoveryManager.hpp, RecoveryManager.cpp)\<close>

type_synonym byte = "8 word"

subsection \<open>Hexadecimal and base64 text\<close>

text \<open>\<open>ss << std::hex << std::setw(2) << std::setfill('0') << n\<close> for \<open>n\<close> below 256.\<close>

definition hex_chars :: string where
  "hex_chars = ''0123456789abcdef''"

definition hex2 :: "byte \<Rightarrow> string" where
  "hex2 b = [hex_chars ! (unat b div 16), hex_chars ! (unat b mod 16)]"

definition base64_chars :: string where
  "base64_chars = ''ABCDEFGHIJKLMNOPQRSTUVWXYZabcdefghijklmnopqrstuvwxyz0123456789+/''"

text \<open>\<open>std::string::find(c)\<close>: the first position of \<open>c\<close>, \<open>None\<close> for \<open>npos\<close>.\<close>

fun find_from :: "nat \<Rightarrow> string \<Rightarrow> char \<Rightarrow> nat option" where
  "find_from i [] c = None"
| "find_from i (x # xs) c = (if x = c then Some i else find_from (Suc i) xs c)"

definition string_find :: "string \<Rightarrow> char \<Rightarrow> nat option" where
  "string_find s c = find_from 0 s c"








text \<open>The decoder of \<open>RecoveryPoint::fromJson\<close>: stop at \<open>'='\<close>, skip characters outside
  the alphabet, shift six bits in, and emit a byte whenever eight are available.\<close>

function (sequential) dec_loop :: "string \<Rightarrow> 32 word \<Rightarrow> int \<Rightarrow> byte list \<Rightarrow> byte list" where
  "dec_loop [] val valb decoded = decoded"
| "dec_loop (c # cs) val valb decoded =
     (if c = CHR ''='' then decoded
      else (case string_find base64_chars c of
              None \<Rightarrow> dec_loop cs val valb decoded
            | Some it \<Rightarrow>
                (let val' = push_bit 6 val + of_nat it;
                     valb' = valb + 6
                 in if valb' \<ge> 0
                    then dec_loop cs val' (valb' - 8)
                           (decoded @ [ucast (signed_drop_bit (nat valb') val' AND 0xFF)])
                    else dec_loop cs val' valb' decoded)))"
  by pat_completeness auto
termination
  by (relation "measure (\<lambda>(cs, val, valb, decoded). length cs)") simp_all

definition base64_decode :: "string \<Rightarrow> byte list" where
  "base64_decode s = dec_loop s 0 (-8) []"

subsection \<open>Recovery points and their JSON documents\<close>

text \<open>Time points are readings of the steady clock in nanoseconds; the document keeps
  milliseconds.\<close>

record RecoveryPoint =
  id_p :: string
  timestamp :: nat
  state :: "byte list"
  isConsistent :: bool
  checksum :: string
  size_p :: nat
  metadata :: "(string \<times> string) list"

record PointJson =
  j_id :: string
  j_timestamp :: nat
  j_state :: string
  j_size :: nat
  j_isConsistent :: bool
  j_checksum :: string
  j_metadata :: "(string \<times> string) list"


definition fromJson :: "PointJson \<Rightarrow> RecoveryPoint" where
  "fromJson j =
     \<lparr> id_p = j_id j, timestamp = j_timestamp j * 1000000,
       state = (if j_state j \<noteq> [] then base64_decode (j_state j) else []),
       isConsistent = j_isConsistent j, checksum = j_checksum j, size_p = j_size j,
       metadata = j_metadata j \<rparr>"

subsection \<open>Configuration\<close>

record RecoveryPointConfig =
  maxSize :: nat
  enableCompression :: bool
  storagePath :: string
  retentionPeriod :: int

record RecoveryConfig =
  maxRecoveryPoints :: nat
  checkpointInterval :: int
  enableAutoRecovery :: bool
  enableStateValidation :: bool
  pointConfig :: RecoveryPointConfig
  logPath :: string
  maxLogSize :: nat
  maxLogFiles :: nat

definition validate_recovery :: "RecoveryConfig \<Rightarrow> bool" where
  "validate_recovery cfg =
     (if maxRecoveryPoints cfg = 0 then False
      else if checkpointInterval cfg \<le> 0 then False
      else if maxSize (pointConfig cfg) = 0 then False
      else if storagePath (pointConfig cfg) = [] then False
      else True)"

subsection \<open>Checksum and run-length compression\<close>

text \<open>
  SHA-256 is OpenSSL's; it is a parameter \<open>H\<close> of the model, giving for a byte sequence
  the 32-byte array \<open>hash\<close> as a function of the index. \<open>calculateChecksum\<close> prints the 32
  bytes as two hexadecimal digits each.
\<close>

definition calculateChecksum :: "(byte list \<Rightarrow> nat \<Rightarrow> byte) \<Rightarrow> byte list \<Rightarrow> string" where
  "calculateChecksum H bytes = concat (map (\<lambda>i. hex2 (H bytes i)) [0..<32])"

definition validateState_validator :: "(byte list \<Rightarrow> nat \<Rightarrow> byte) \<Rightarrow> byte list \<Rightarrow> bool" where
  "validateState_validator H st =
     (if st = [] then False else calculateChecksum H st \<noteq> [])"






text \<open>The \<open>for\<close> loop of \<open>decompressState\<close>.\<close>

function decompress_loop :: "byte list \<Rightarrow> nat \<Rightarrow> byte list \<Rightarrow> byte list" where
  "decompress_loop bytes i decompressed =
     (if i < length bytes
      then (if bytes ! i = 0 \<and> i + 2 < length bytes
            then decompress_loop bytes (i + 2 + 1)
                   (decompressed @ replicate (unat (bytes ! (i + 1))) (bytes ! (i + 2)))
            else decompress_loop bytes (i + 1) (decompressed @ [bytes ! i]))
      else decompressed)"
  by pat_completeness auto
termination
proof (relation "measure (\<lambda>(bytes, i, decompressed). length bytes - i)")
  show "wf (measure (\<lambda>(bytes, i, decompressed). length bytes - i))"
    by simp
next
  fix bytes :: "byte list" and i :: nat and decompressed :: "byte list"
  assume "i < length bytes"
  then have "length bytes - (i + 2 + 1) < length bytes - i"
    by arith
  then show "((bytes, i + 2 + 1,
          decompressed @ replicate (unat (bytes ! (i + 1))) (bytes ! (i + 2))), bytes, i, decompressed)
         \<in> measure (\<lambda>(bytes, i, decompressed). length bytes - i)"
    by (simp only: in_measure split_conv)
next
  fix bytes :: "byte list" and i :: nat and decompressed :: "byte list"
  assume "i < length bytes"
  then have "length bytes - (i + 1) < length bytes - i"
    by arith
  then show "((bytes, i + 1, decompressed @ [bytes ! i]), bytes, i, decompressed)
         \<in> measure (\<lambda>(bytes, i, decompressed). length bytes - i)"
    by (simp only: in_measure split_conv)
qed

declare decompress_loop.simps [simp del]

definition decompressState :: "byte list \<Rightarrow> byte list" where
  "decompressState bytes = decompress_loop bytes 0 []"

subsection \<open>The manager and the part of the world it touches\<close>

text \<open>
  The file system holds directories, recovery-point documents by path and other regular
  files; \<open>creatable\<close> tells for which paths \<open>create_directories\<close> succeeds (elsewhere it
  throws) and \<open>readOnly\<close> makes every open for writing fail.
\<close>

record FileSystem =
  dirs :: "string list"
  files :: "(string \<times> PointJson) list"
  regular :: "string list"
  creatable :: "string \<Rightarrow> bool"
  readOnly :: bool

text \<open>What \<open>initialize\<close> needs from outside the sources under study: whether the rotating
  log sink can be created and whether the \<open>ThreadPool\<close> constructor returns.\<close>

record Host =
  loggerOk :: bool
  poolOk :: bool

text \<open>
  The manager with its \<open>Impl\<close>. The capture callback is modelled by the bytes it returns,
  the restore callback by its result as a function of its argument together with the
  log \<open>restored\<close> of the arguments it was called with, the error callback by the log
  \<open>errorLog\<close> of \<open>handleError\<close>; \<open>rng\<close> is the output sequence of the Mersenne twister
  and \<open>rngPos\<close> the number of outputs consumed. \<open>checkpointConfig\<close> is the copy of the
  point configuration held by the \<open>CheckpointManager\<close>. Timing metrics are left out.
\<close>

record RecoveryManager =
  config :: RecoveryConfig
  checkpointConfig :: RecoveryPointConfig
  recoveryPoints :: "(string \<times> RecoveryPoint) list"
  totalPoints :: nat
  successfulRecoveries :: nat
  stateCaptureCallback :: "byte list option"
  stateRestoreCallback :: "(byte list \<Rightarrow> bool) option"
  restored :: "byte list list"
  errorLog :: "string list"
  rng :: "nat \<Rightarrow> 32 word"
  rngPos :: nat
  fs :: FileSystem
  initialized :: bool
  recoveryInProgress :: bool
  threadPool :: bool

text \<open>
  The constructor initialises \<open>recoveryInProgress\<close> and leaves \<open>initialized\<close> to its
  default constructor: a \<open>std::atomic<bool>\<close> so constructed holds \<open>false\<close> from C++20 on
  and an indeterminate value before. The value it holds is the argument \<open>flag\<close>.
\<close>

definition RecoveryManager_new ::
  "RecoveryConfig \<Rightarrow> (nat \<Rightarrow> 32 word) \<Rightarrow> FileSystem \<Rightarrow> bool \<Rightarrow> RecoveryManager" where
  "RecoveryManager_new cfg gen world flag =
     \<lparr> config = cfg, checkpointConfig = pointConfig cfg, recoveryPoints = [],
       totalPoints = 0, successfulRecoveries = 0,
       stateCaptureCallback = None, stateRestoreCallback = None, restored = [],
       errorLog = [], rng = gen, rngPos = 0, fs = world,
       initialized = flag, recoveryInProgress = False, threadPool = False \<rparr>"

definition handleError :: "RecoveryManager \<Rightarrow> string \<Rightarrow> RecoveryManager" where
  "handleError m msg = m\<lparr>errorLog := errorLog m @ [msg]\<rparr>"


definition setStateRestoreCallback ::
  "RecoveryManager \<Rightarrow> (byte list \<Rightarrow> bool) \<Rightarrow> RecoveryManager" where
  "setStateRestoreCallback m cb = m\<lparr>stateRestoreCallback := Some cb\<rparr>"


text \<open>\<open>std::filesystem::path::operator/=\<close> on POSIX paths: an absolute right-hand side
  replaces the left one, otherwise a separator is put between the two unless the left
  one is empty or ends with one. The file of a point is \<open>storagePath / (id + ".json")\<close>.\<close>

definition path_append :: "string \<Rightarrow> string \<Rightarrow> string" where
  "path_append p q =
     (if q \<noteq> [] \<and> hd q = CHR ''/'' then q
      else if p = [] then q
      else if last p = CHR ''/'' then p @ q
      else p @ ''/'' @ q)"

definition pointPath :: "RecoveryPointConfig \<Rightarrow> string \<Rightarrow> string" where
  "pointPath pc pid = path_append (storagePath pc) (pid @ ''.json'')"

definition exists_fs :: "FileSystem \<Rightarrow> string \<Rightarrow> bool" where
  "exists_fs world p = (p \<in> set (dirs world) \<or> p \<in> set (regular world) \<or> p \<in> fst ` set (files world))"


definition loadCheckpoint :: "RecoveryPointConfig \<Rightarrow> FileSystem \<Rightarrow> string \<Rightarrow> RecoveryPoint option" where
  "loadCheckpoint pc world pid =
     (case map_of (files world) (pointPath pc pid) of
        None \<Rightarrow> None
      | Some j \<Rightarrow> Some (fromJson j))"


text \<open>\<open>restoreFromPoint\<close>; every \<open>throw\<close> ends in the \<open>catch\<close> block, which reports the
  error, clears \<open>recoveryInProgress\<close> and returns \<open>false\<close>.\<close>

definition restoreFailed :: "RecoveryManager \<Rightarrow> string \<Rightarrow> bool \<times> RecoveryManager" where
  "restoreFailed m what =
     (False, (handleError m (''Failed to restore from point: '' @ what))\<lparr>recoveryInProgress := False\<rparr>)"

definition restoreFromPoint ::
  "(byte list \<Rightarrow> nat \<Rightarrow> byte) \<Rightarrow> RecoveryManager \<Rightarrow> string \<Rightarrow> bool \<times> RecoveryManager" where
  "restoreFromPoint H m pointId =
     (let m1 = m\<lparr>recoveryInProgress := True\<rparr>
      in case loadCheckpoint (checkpointConfig m1) (fs m1) pointId of
           None \<Rightarrow> restoreFailed m1 ''Failed to load recovery point''
         | Some p \<Rightarrow>
             (let st = (if enableCompression (pointConfig (config m1))
                        then decompressState (state p) else state p)
              in if enableStateValidation (config m1) \<and> \<not> validateState_validator H st
                 then restoreFailed m1 ''Invalid state data''
                 else (case stateRestoreCallback m1 of
                         Some cb \<Rightarrow>
                           (let m2 = m1\<lparr>restored := restored m1 @ [st]\<rparr>
                            in if \<not> cb st then restoreFailed m2 ''Failed to restore state''
                               else (True, m2\<lparr>successfulRecoveries := successfulRecoveries m2 + 1,
                                               recoveryInProgress := False\<rparr>))
                       | None \<Rightarrow>
                           (True, m1\<lparr>successfulRecoveries := successfulRecoveries m1 + 1,
                                     recoveryInProgress := False\<rparr>))))"

text \<open>\<open>RecoveryManager::validateState\<close>, the public member.\<close>

definition validateState :: "RecoveryManager \<Rightarrow> byte list \<Rightarrow> bool" where
  "validateState m st =
     (if \<not> enableStateValidation (config m) then True
      else if st = [] then False
      else True)"

text \<open>
  \<open>cleanupOldPoints\<close> copies the index into a vector, sorts it by timestamp with
  \<open>std::sort\<close> and erases the first \<open>size - maxRecoveryPoints\<close> identifiers. The order in
  which the hash map is copied and in which \<open>std::sort\<close> leaves entries of equal
  timestamp is the library's: \<open>sortByTimestamp\<close> gives the vector after the sort.
  \<open>setConfiguration\<close> replaces the configuration and cleans up; the copy of the point
  configuration held by the \<open>CheckpointManager\<close> and the flag \<open>initialized\<close> stay.
\<close>

definition cleanupOldPoints ::
  "((string \<times> RecoveryPoint) list \<Rightarrow> (string \<times> RecoveryPoint) list) \<Rightarrow> RecoveryManager
     \<Rightarrow> RecoveryManager" where
  "cleanupOldPoints sortByTimestamp m =
     (if length (recoveryPoints m) \<le> maxRecoveryPoints (config m) then m
      else (let points = sortByTimestamp (recoveryPoints m);
                toRemove = length points - maxRecoveryPoints (config m)
            in m\<lparr>recoveryPoints :=
                   foldl (\<lambda>index pid. AList.delete pid index) (recoveryPoints m)
                     (map fst (take toRemove points))\<rparr>))"

definition setConfiguration ::
  "((string \<times> RecoveryPoint) list \<Rightarrow> (string \<times> RecoveryPoint) list) \<Rightarrow> RecoveryManager
     \<Rightarrow> RecoveryConfig \<Rightarrow> RecoveryManager" where
  "setConfiguration sortByTimestamp m cfg = cleanupOldPoints sortByTimestamp (m\<lparr>config := cfg\<rparr>)"

subsection \<open>Initialization\<close>

datatype init_error =
  FilesystemError | InvalidConfiguration | StorageDirectoryFailed | LoggerFailed | ThreadPoolFailed

text \<open>\<open>std::filesystem::create_directories\<close>: \<open>None\<close> when it throws, as it does on a
  path that exists and is not a directory.\<close>

definition create_directories :: "FileSystem \<Rightarrow> string \<Rightarrow> FileSystem option" where
  "create_directories world p =
     (if p \<in> set (dirs world) then Some world
      else if exists_fs world p then None
      else if creatable world p then Some (world\<lparr>dirs := p # dirs world\<rparr>)
      else None)"

definition ensureDirectoryExists :: "FileSystem \<Rightarrow> string \<Rightarrow> bool \<times> FileSystem" where
  "ensureDirectoryExists world p =
     (if \<not> exists_fs world p
      then (case create_directories world p of
              None \<Rightarrow> (False, world)
            | Some world' \<Rightarrow> (exists_fs world' p \<and> p \<in> set (dirs world'), world'))
      else (p \<in> set (dirs world), world))"

definition defaultStoragePath :: string where
  "defaultStoragePath = ''./recovery_points/default''"

text \<open>The \<open>try\<close> block of \<open>initialize\<close>: the error, or the manager initialized.\<close>

definition initialize_try :: "Host \<Rightarrow> RecoveryManager \<Rightarrow> (init_error \<times> RecoveryManager) + RecoveryManager" where
  "initialize_try host m =
     (let path0 = storagePath (pointConfig (config m));
          path = (if path0 = [] then defaultStoragePath else path0);
          m1 = (if path0 = []
                then m\<lparr>config := (config m)\<lparr>pointConfig := (pointConfig (config m))\<lparr>storagePath := path\<rparr>\<rparr>\<rparr>
                else m)
      in case (if \<not> exists_fs (fs m1) path then create_directories (fs m1) path
               else Some (fs m1)) of
           None \<Rightarrow> Inl (FilesystemError, m1)
         | Some world \<Rightarrow>
             (let m2 = m1\<lparr>fs := world\<rparr>
              in if \<not> validate_recovery (config m2) then Inl (InvalidConfiguration, m2)
                 else (case ensureDirectoryExists (fs m2) (storagePath (pointConfig (config m2))) of
                         (ok, world') \<Rightarrow>
                           (let m3 = m2\<lparr>fs := world'\<rparr>
                            in if \<not> ok then Inl (StorageDirectoryFailed, m3)
                               else if \<not> loggerOk host then Inl (LoggerFailed, m3)
                               else (let m4 = m3\<lparr>checkpointConfig := pointConfig (config m3)\<rparr>
                                     in if \<not> poolOk host then Inl (ThreadPoolFailed, m4)
                                        else Inr (m4\<lparr>threadPool := True, initialized := True\<rparr>))))))"

text \<open>The text of \<open>e.what()\<close>; the two \<open>runtime_error\<close> texts are the source's, the texts
  of the exceptions thrown by the libraries stand for whatever those report.\<close>

definition init_message :: "init_error \<Rightarrow> string" where
  "init_message e =
     (case e of
        FilesystemError \<Rightarrow> ''filesystem error''
      | InvalidConfiguration \<Rightarrow> ''Invalid configuration''
      | StorageDirectoryFailed \<Rightarrow> ''Failed to create storage directory''
      | LoggerFailed \<Rightarrow> ''Failed opening log file''
      | ThreadPoolFailed \<Rightarrow> ''ThreadPool construction failed'')"

definition initialize :: "Host \<Rightarrow> RecoveryManager \<Rightarrow> bool \<times> RecoveryManager" where
  "initialize host m =
     (if initialized m then (True, m)
      else (case initialize_try host m of
              Inl (e, m') \<Rightarrow> (False, handleError m' (''Initialization failed: '' @ init_message e))
            | Inr m' \<Rightarrow> (True, m')))"

subsection \<open>Inputs used in the examples\<close>

definition testPointConfig :: RecoveryPointConfig where
  "testPointConfig = \<lparr> maxSize = 1048576, enableCompression = False,
     storagePath = ''./recovery_points'', retentionPeriod = 3600 \<rparr>"

definition testConfig :: RecoveryConfig where
  "testConfig = \<lparr> maxRecoveryPoints = 10, checkpointInterval = 30,
     enableAutoRecovery = True, enableStateValidation = True, pointConfig = testPointConfig,
     logPath = ''logs/recovery.log'', maxLogSize = 1048576, maxLogFiles = 2 \<rparr>"

definition testWorld :: FileSystem where
  "testWorld = \<lparr> dirs = [''./recovery_points''], files = [], regular = [],
     creatable = (\<lambda>p. True), readOnly = False \<rparr>"

definition testGen :: "nat \<Rightarrow> 32 word" where
  "testGen n = of_nat (n * 37 + 11)"

text \<open>A stand-in for the hash in the examples: every digest byte is the length of the
  input. The theorems hold for every \<open>H\<close>.\<close>

definition testHash :: "byte list \<Rightarrow> nat \<Rightarrow> byte" where
  "testHash bytes i = of_nat (length bytes)"

definition testManager :: RecoveryManager where
  "testManager =
     setStateRestoreCallback (RecoveryManager_new testConfig testGen testWorld False) (\<lambda>bytes. True)"


definition testHost :: Host where
  "testHost = \<lparr> loggerOk = True, poolOk = True \<rparr>"

subsection \<open>Vocabulary of the recovery properties\<close>








text \<open>Further inputs used in the examples: a configuration with an empty storage path,
  a manager constructed with it whose flag \<open>initialized\<close> is clear, and a stored point
  whose checksum field does not belong to its state.\<close>

definition emptyPathConfig :: RecoveryConfig where
  "emptyPathConfig = testConfig\<lparr>pointConfig := testPointConfig\<lparr>storagePath := []\<rparr>\<rparr>"


definition forgedWorld :: FileSystem where
  "forgedWorld = testWorld\<lparr>files :=
     [(''./recovery_points/p.json'',
       \<lparr> j_id = ''p'', j_timestamp = 0, j_state = ''AQID'', j_size = 3, j_isConsistent = True,
         j_checksum = ''bad'', j_metadata = [] \<rparr>)]\<rparr>"

definition forgedManager :: RecoveryManager where
  "forgedManager = testManager\<lparr>fs := forgedWorld\<rparr>"

section \<open>Properties of the worker pool configuration\<close>

text \<open>
  Claim C9, amended (worker-pool validation). \<open>validate\<close> accepts a configuration exactly
  when \<open>0 < minThreads \<le> maxThreads\<close>, \<open>stackSize > 0\<close> and the checks of the build
  platform hold (on Apple ARM a requested core class has cores; on Linux x86-64
  hyperthreading has more logical than physical cores). The queue capacity is not
  examined: changing \<open>queueSize\<close> never changes the verdict.
\<close>

theorem validate_pool_iff:
  "validate_pool pf c =
     (0 < minThreads c \<and> minThreads c \<le> maxThreads c \<and> 0 < stackSize c \<and>
      (pf = APPLE_ARM \<longrightarrow>
         \<not> (usePerformanceCores c \<and> performanceCoreCount c = 0) \<and>
         \<not> (useEfficiencyCores c \<and> efficiencyCoreCount c = 0)) \<and>
      (pf = LINUX_X64 \<longrightarrow> \<not> (useHyperthreading c \<and> logicalCoreCount c \<le> physicalCoreCount c)))
   \<and> validate_pool pf (c\<lparr>queueSize := q\<rparr>) = validate_pool pf c"
  by (cases pf) (auto simp: validate_pool_def)

theorem validate_pool_iff_witness:
  "validate_pool LINUX_X64 (minimalPool\<lparr>queueSize := 100\<rparr>) \<and>
   \<not> validate_pool APPLE_ARM (minimalPool\<lparr>usePerformanceCores := True\<rparr>)"
  using validate_pool_iff [of LINUX_X64 "minimalPool\<lparr>queueSize := 100\<rparr>" 0]
    validate_pool_iff [of APPLE_ARM "minimalPool\<lparr>usePerformanceCores := True\<rparr>" 0]
  by (simp add: minimalPool_def)

text \<open>The claim as stated fails: a configuration with queue capacity 0 is accepted.\<close>

theorem validate_pool_counterexample:
  "queueSize minimalPool = 0 \<and> validate_pool OTHER_PLATFORM minimalPool \<and>
   validate_pool LINUX_X64 minimalPool \<and> validate_pool APPLE_ARM minimalPool"
  by (simp add: minimalPool_def validate_pool_def)

section \<open>Properties of the load balancer\<close>

lemma best_loop_index:
  "snd (best_loop fp f ms i (s, k)) = k \<or> (i \<le> snd (best_loop fp f ms i (s, k)) \<and> snd (best_loop fp f ms i (s, k)) < i + length ms)"
proof (induction ms arbitrary: i s k)
  case Nil
  show ?case by simp
next
  case (Cons m ms)
  show ?case
  proof (cases "flt fp (f m) s")
    case True
    from Cons.IH [of "i + 1" "f m" i] True show ?thesis by auto
  next
    case False
    from Cons.IH [of "i + 1" s k] False show ?thesis by auto
  qed
qed

lemma best_loop_in_range:
  "ms \<noteq> [] \<Longrightarrow> snd (best_loop fp f ms 0 (s, 0)) < length ms"
  using best_loop_index [of fp f ms 0 s 0] by auto

lemma selectByResourceAware_ok:
  assumes "metrics \<noteq> []"
  shows "\<exists>k lb'. selectByResourceAware fp lb metrics task = Inr (k, lb') \<and> k < length metrics
           \<and> lb' = lb\<lparr>rrIdx := rrIdx lb'\<rparr>"
proof -
  from assms obtain m0 rest where m: "metrics = m0 # rest" by (cases metrics) auto
  have "snd (best_loop fp (\<lambda>m. calculateResourceScore fp lb m task) metrics 0 (dbl_max fp, 0)) < length metrics"
    using assms by (rule best_loop_in_range)
  then show ?thesis
    unfolding selectByResourceAware_def m by (simp add: Let_def)
qed

lemma selectByWorkloadSpecific_ok:
  assumes "metrics \<noteq> []"
  shows "\<exists>k lb'. selectByWorkloadSpecific fp lb metrics task = Inr (k, lb') \<and> k < length metrics
           \<and> lb' = lb\<lparr>rrIdx := rrIdx lb'\<rparr>"
  using best_loop_in_range [OF assms] by (simp add: selectByWorkloadSpecific_def)

lemma selectByHybridAdaptive_ok:
  assumes "metrics \<noteq> []"
  shows "\<exists>k lb'. selectByHybridAdaptive fp lb metrics task = Inr (k, lb') \<and> k < length metrics
           \<and> lb' = lb\<lparr>rrIdx := rrIdx lb'\<rparr>"
proof -
  from assms obtain m0 rest where m: "metrics = m0 # rest" by (cases metrics) auto
  have "snd (best_loop fp (combinedScore fp lb task) metrics 0 (dbl_max fp, 0)) < length metrics"
    using assms by (rule best_loop_in_range)
  then show ?thesis
    unfolding selectByHybridAdaptive_def m by (simp add: Let_def)
qed

lemma dispatchTask_ok:
  assumes "metrics \<noteq> []" and "length metrics = n"
  shows "\<exists>lb' c. dispatchTask fp n metrics lb task = Inr (lb', c)
           \<and> payload c = data task \<and> prio c = priority task \<and> kernel c < n
           \<and> strategyEnum lb' = strategyEnum lb \<and> strategy lb' = strategy lb
           \<and> totalDecisions lb' = totalDecisions lb + 1
           \<and> resourceAwareDecisions lb' + workloadSpecificDecisions lb'
               = resourceAwareDecisions lb + workloadSpecificDecisions lb
                 + (if strategyEnum lb = ResourceAware \<or> strategyEnum lb = WorkloadSpecific then 1 else 0)"
proof -
  obtain k1 l1 where ra: "selectByResourceAware fp lb metrics task = Inr (k1, l1)" "k1 < length metrics"
     "l1 = lb\<lparr>rrIdx := rrIdx l1\<rparr>"
    using selectByResourceAware_ok [OF assms(1)] by blast
  obtain k2 l2 where ws: "selectByWorkloadSpecific fp lb metrics task = Inr (k2, l2)" "k2 < length metrics"
     "l2 = lb\<lparr>rrIdx := rrIdx l2\<rparr>"
    using selectByWorkloadSpecific_ok [OF assms(1)] by blast
  obtain k3 l3 where hy: "selectByHybridAdaptive fp lb metrics task = Inr (k3, l3)" "k3 < length metrics"
     "l3 = lb\<lparr>rrIdx := rrIdx l3\<rparr>"
    using selectByHybridAdaptive_ok [OF assms(1)] by blast
  have f1: "strategyEnum l1 = strategyEnum lb" "strategy l1 = strategy lb"
    "totalDecisions l1 = totalDecisions lb" "resourceAwareDecisions l1 = resourceAwareDecisions lb"
    "workloadSpecificDecisions l1 = workloadSpecificDecisions lb"
    by (subst ra(3), simp)+
  have f2: "strategyEnum l2 = strategyEnum lb" "strategy l2 = strategy lb"
    "totalDecisions l2 = totalDecisions lb" "resourceAwareDecisions l2 = resourceAwareDecisions lb"
    "workloadSpecificDecisions l2 = workloadSpecificDecisions lb"
    by (subst ws(3), simp)+
  have f3: "strategyEnum l3 = strategyEnum lb" "strategy l3 = strategy lb"
    "totalDecisions l3 = totalDecisions lb" "resourceAwareDecisions l3 = resourceAwareDecisions lb"
    "workloadSpecificDecisions l3 = workloadSpecificDecisions lb"
    by (subst hy(3), simp)+
  show ?thesis
    using ra(1,2) ws(1,2) hy(1,2) f1 f2 f3 assms(2)
    by (cases "strategyEnum lb") (simp_all add: dispatchTask_def)
qed

lemma dispatchAll_ok:
  assumes "metrics \<noteq> []" and "length metrics = n"
  shows "\<exists>lb' cs. dispatchAll fp n metrics lb tasks = Inr (lb', cs)
           \<and> map (\<lambda>c. (payload c, prio c)) cs = map (\<lambda>t. (data t, priority t)) tasks
           \<and> (\<forall>c \<in> set cs. kernel c < n)
           \<and> strategyEnum lb' = strategyEnum lb \<and> strategy lb' = strategy lb
           \<and> totalDecisions lb' = totalDecisions lb + of_nat (length tasks)
           \<and> resourceAwareDecisions lb' + workloadSpecificDecisions lb'
               = resourceAwareDecisions lb + workloadSpecificDecisions lb
                 + (if strategyEnum lb = ResourceAware \<or> strategyEnum lb = WorkloadSpecific
                    then of_nat (length tasks) else 0)"
proof (induction tasks arbitrary: lb)
  case Nil
  show ?case by simp
next
  case (Cons t ts)
  obtain lb1 c where d: "dispatchTask fp n metrics lb t = Inr (lb1, c)"
    "payload c = data t" "prio c = priority t" "kernel c < n"
    "strategyEnum lb1 = strategyEnum lb" "strategy lb1 = strategy lb"
    "totalDecisions lb1 = totalDecisions lb + 1"
    "resourceAwareDecisions lb1 + workloadSpecificDecisions lb1
               = resourceAwareDecisions lb + workloadSpecificDecisions lb
                 + (if strategyEnum lb = ResourceAware \<or> strategyEnum lb = WorkloadSpecific then 1 else 0)"
    using dispatchTask_ok [OF assms, of fp lb t] by blast
  from Cons.IH [of lb1] obtain lb2 cs where r: "dispatchAll fp n metrics lb1 ts = Inr (lb2, cs)"
    "map (\<lambda>c. (payload c, prio c)) cs = map (\<lambda>t. (data t, priority t)) ts"
    "\<forall>c \<in> set cs. kernel c < n"
    "strategyEnum lb2 = strategyEnum lb1" "strategy lb2 = strategy lb1"
    "totalDecisions lb2 = totalDecisions lb1 + of_nat (length ts)"
    "resourceAwareDecisions lb2 + workloadSpecificDecisions lb2
               = resourceAwareDecisions lb1 + workloadSpecificDecisions lb1
                 + (if strategyEnum lb1 = ResourceAware \<or> strategyEnum lb1 = WorkloadSpecific
                    then of_nat (length ts) else 0)"
    by blast
  have "dispatchAll fp n metrics lb (t # ts) = Inr (lb2, c # cs)"
    using d(1) r(1) by simp
  moreover have "totalDecisions lb2 = totalDecisions lb + of_nat (length (t # ts))"
    using d(7) r(6) by simp
  moreover have "resourceAwareDecisions lb2 + workloadSpecificDecisions lb2
               = resourceAwareDecisions lb + workloadSpecificDecisions lb
                 + (if strategyEnum lb = ResourceAware \<or> strategyEnum lb = WorkloadSpecific
                    then of_nat (length (t # ts)) else 0)"
    using d(5,8) r(7) by simp
  ultimately show ?case
    using d(2,3,4,5,6) r(2,3,4,5) by simp
qed

lemma rr_inj: "inj_on (\<lambda>i. (r + i) mod n) {0..<n::nat}"
proof (rule inj_onI)
  fix i j assume i: "i \<in> {0..<n}" and j: "j \<in> {0..<n}" and e: "(r + i) mod n = (r + j) mod n"
  have aux: "a = b" if "a \<le> b" "b < n" "(r + a) mod n = (r + b) mod n" for a b
  proof -
    have "n dvd (r + b) - (r + a)"
      using that by (metis mod_eq_dvd_iff_nat add_le_cancel_left)
    then have "n dvd b - a" by simp
    with that show ?thesis
      by (metis dvd_imp_le le_antisym less_imp_diff_less linorder_not_less zero_less_diff)
  qed
  show "i = j"
  proof (cases "i \<le> j")
    case True with aux [of i j] j e show ?thesis by simp
  next
    case False with aux [of j i] i e show ?thesis by simp
  qed
qed

lemma rr_perm: "distinct (map (\<lambda>i. (r + i) mod n) [0..<n]) \<and> set (map (\<lambda>i. (r + i) mod n) [0..<n]) = {0..<n}"
proof -
  have d: "distinct (map (\<lambda>i. (r + i) mod n) [0..<n])"
    using rr_inj [of r n] by (simp add: distinct_map)
  have sub: "set (map (\<lambda>i. (r + i) mod n) [0..<n]) \<subseteq> {0..<n}"
    by auto
  have "card (set (map (\<lambda>i. (r + i) mod n) [0..<n])) = n"
    using distinct_card [OF d] by simp
  then have "set (map (\<lambda>i. (r + i) mod n) [0..<n]) = {0..<n}"
    using sub by (simp add: card_subset_eq)
  with d show ?thesis by simp
qed

lemma allEqual_loop_iff:
  "allEqual_loop fp f s ms = (\<forall>m \<in> set ms. \<not> differs fp (f m) s)"
  by (induction ms) auto

lemma allEqual_hybrid_loop_iff:
  "allEqual_hybrid_loop fp f g s w ms
     = ((\<forall>m \<in> set ms. \<not> differs fp (f m) s) \<and> (\<forall>m \<in> set ms. \<not> differs fp (g m) w))"
  by (induction ms) auto

lemma sameWeights_score:
  "sameWeights a b \<Longrightarrow> calculateResourceScore fp a m t = calculateResourceScore fp b m t"
  by (simp add: sameWeights_def calculateResourceScore_def)

lemma sameWeights_combined:
  assumes "sameWeights a b"
  shows "combinedScore fp a t = combinedScore fp b t"
proof
  fix m
  have "resourceThreshold a = resourceThreshold b"
    using assms by (simp add: sameWeights_def)
  then show "combinedScore fp a t m = combinedScore fp b t m"
    by (simp add: combinedScore_def sameWeights_score [OF assms])
qed

lemma sameWeights_tieBreak:
  assumes "sameWeights a b"
  shows "tieBreak fp a metrics t = tieBreak fp b metrics t"
proof -
  have "strategyEnum a = strategyEnum b"
    using assms by (simp add: sameWeights_def)
  then show ?thesis
    by (cases "strategyEnum b")
       (simp_all add: tieBreak_def resourceTie_def sameWeights_score [OF assms])
qed

lemma sameWeights_bestKernel:
  assumes "sameWeights a b"
  shows "bestKernel fp a metrics t = bestKernel fp b metrics t"
proof -
  have "strategyEnum a = strategyEnum b"
    using assms by (simp add: sameWeights_def)
  then show ?thesis
    by (cases "strategyEnum b")
       (simp_all add: bestKernel_def sameWeights_score [OF assms] sameWeights_combined [OF assms])
qed

lemma sameWeights_selections:
  assumes "sameWeights a b"
  shows "selections fp a metrics r ts = selections fp b metrics r ts"
  by (induction ts arbitrary: r)
     (simp_all add: sameWeights_tieBreak [OF assms] sameWeights_bestKernel [OF assms])

lemma selectByResourceAware_rule:
  assumes "metrics \<noteq> []"
  shows "selectByResourceAware fp lb metrics t =
           (if resourceTie fp lb metrics t
            then Inr (rrIdx lb mod length metrics, lb\<lparr>rrIdx := (rrIdx lb + 1) mod length metrics\<rparr>)
            else Inr (snd (best_loop fp (\<lambda>m. calculateResourceScore fp lb m t) metrics 0
                            (dbl_max fp, 0)), lb))"
proof -
  from assms obtain m0 rest where m: "metrics = m0 # rest" by (cases metrics) auto
  show ?thesis
    by (simp add: selectByResourceAware_def m allEqual_loop_iff resourceTie_def)
qed

lemma selectByHybridAdaptive_rule:
  assumes "metrics \<noteq> []"
  shows "selectByHybridAdaptive fp lb metrics t =
           (if resourceTie fp lb metrics t \<and> workloadTie fp metrics t
            then Inr (rrIdx lb mod length metrics, lb\<lparr>rrIdx := (rrIdx lb + 1) mod length metrics\<rparr>)
            else Inr (snd (best_loop fp (combinedScore fp lb t) metrics 0 (dbl_max fp, 0)), lb))"
proof -
  from assms obtain m0 rest where m: "metrics = m0 # rest" by (cases metrics) auto
  show ?thesis
    by (simp add: selectByHybridAdaptive_def m allEqual_hybrid_loop_iff resourceTie_def
        workloadTie_def)
qed

lemma bestKernel_in_range: "metrics \<noteq> [] \<Longrightarrow> bestKernel fp lb metrics t < length metrics"
  unfolding bestKernel_def by (rule best_loop_in_range)

lemma dispatchTask_rule:
  assumes "metrics \<noteq> []" and "length metrics = n"
  shows "\<exists>lb' c. dispatchTask fp n metrics lb t = Inr (lb', c)
           \<and> kernel c = (if tieBreak fp lb metrics t then rrIdx lb mod n
                         else bestKernel fp lb metrics t)
           \<and> rrIdx lb' = (if tieBreak fp lb metrics t then (rrIdx lb + 1) mod n else rrIdx lb)
           \<and> sameWeights lb' lb"
proof -
  have n: "rrIdx lb mod n < n" using assms by auto
  have k: "bestKernel fp lb metrics t < n"
    using bestKernel_in_range [OF assms(1)] assms(2) by simp
  note ra = selectByResourceAware_rule [OF assms(1), of fp lb t, unfolded assms(2)]
  note hy = selectByHybridAdaptive_rule [OF assms(1), of fp lb t, unfolded assms(2)]
  show ?thesis
  proof (cases "strategyEnum lb")
    case ResourceAware
    with n k ra show ?thesis
      by (simp add: dispatchTask_def tieBreak_def bestKernel_def sameWeights_def)
  next
    case WorkloadSpecific
    with n k show ?thesis
      by (simp add: dispatchTask_def tieBreak_def bestKernel_def sameWeights_def
          selectByWorkloadSpecific_def)
  next
    case HybridAdaptive
    with n k hy show ?thesis
      by (simp add: dispatchTask_def tieBreak_def bestKernel_def sameWeights_def)
  next
    case PriorityAdaptive
    with n k ra show ?thesis
      by (simp add: dispatchTask_def tieBreak_def bestKernel_def sameWeights_def)
  next
    case LeastLoaded
    with n k ra show ?thesis
      by (simp add: dispatchTask_def tieBreak_def bestKernel_def sameWeights_def)
  next
    case RoundRobin
    with n k ra show ?thesis
      by (simp add: dispatchTask_def tieBreak_def bestKernel_def sameWeights_def)
  qed
qed

lemma dispatchAll_selections:
  assumes "metrics \<noteq> []" and "length metrics = n"
  shows "\<exists>lb' cs. dispatchAll fp n metrics lb tasks = Inr (lb', cs)
           \<and> (map kernel cs, rrIdx lb') = selections fp lb metrics (rrIdx lb) tasks
           \<and> sameWeights lb' lb"
proof (induction tasks arbitrary: lb)
  case Nil
  show ?case by (simp add: sameWeights_def)
next
  case (Cons t ts)
  obtain lb1 c where d: "dispatchTask fp n metrics lb t = Inr (lb1, c)"
     "kernel c = (if tieBreak fp lb metrics t then rrIdx lb mod n else bestKernel fp lb metrics t)"
     "rrIdx lb1 = (if tieBreak fp lb metrics t then (rrIdx lb + 1) mod n else rrIdx lb)"
     "sameWeights lb1 lb"
    using dispatchTask_rule [OF assms, of fp lb t] by blast
  from Cons.IH [of lb1] obtain lb2 cs where r: "dispatchAll fp n metrics lb1 ts = Inr (lb2, cs)"
     "(map kernel cs, rrIdx lb2) = selections fp lb1 metrics (rrIdx lb1) ts"
     "sameWeights lb2 lb1"
    by blast
  have s: "selections fp lb metrics (rrIdx lb1) ts = (map kernel cs, rrIdx lb2)"
    using r(2) sameWeights_selections [OF d(4), of fp metrics "rrIdx lb1" ts] by simp
  have "dispatchAll fp n metrics lb (t # ts) = Inr (lb2, c # cs)"
    using d(1) r(1) by simp
  moreover have "(map kernel (c # cs), rrIdx lb2) = selections fp lb metrics (rrIdx lb) (t # ts)"
    using d(2,3) s assms(2) by (cases "tieBreak fp lb metrics t") simp_all
  moreover have "sameWeights lb2 lb"
    using r(3) d(4) by (simp add: sameWeights_def)
  ultimately show ?case by blast
qed

lemma selections_append:
  "selections fp lb metrics r (as @ bs) =
     (fst (selections fp lb metrics r as)
        @ fst (selections fp lb metrics (snd (selections fp lb metrics r as)) bs),
      snd (selections fp lb metrics (snd (selections fp lb metrics r as)) bs))"
  by (induction as arbitrary: r) (simp_all add: split_beta)

lemma rr_shift: "map (\<lambda>i. (r + i) mod n) [0..<Suc k] = r mod n # map (\<lambda>i. ((r + 1) mod n + i) mod n) [0..<k]"
proof -
  have "[0..<Suc k] = 0 # [Suc 0..<Suc k]"
    by (rule upt_conv_Cons) simp
  also have "[Suc 0..<Suc k] = map Suc [0..<k]"
    by (rule map_Suc_upt [symmetric])
  finally have "map (\<lambda>i. (r + i) mod n) [0..<Suc k] = r mod n # map (\<lambda>i. (r + Suc i) mod n) [0..<k]"
    by (simp add: comp_def del: upt_Suc)
  moreover have "(r + Suc i) mod n = ((r + 1) mod n + i) mod n" for i
    by (simp add: mod_add_left_eq)
  ultimately show ?thesis by simp
qed

lemma balance_noop: "noop kernels tasks metrics \<Longrightarrow> balance fp lb kernels tasks metrics = Inr (lb, [])"
  by (auto simp: balance_def noop_def)

lemma switchStrategy_fields:
  "totalDecisions (switchStrategy lb) = totalDecisions lb"
  "resourceAwareDecisions (switchStrategy lb) = resourceAwareDecisions lb"
  "workloadSpecificDecisions (switchStrategy lb) = workloadSpecificDecisions lb"
  "rrIdx (switchStrategy lb) = rrIdx lb"
  by (simp_all add: switchStrategy_def)

lemma balance_run:
  assumes "\<not> noop kernels tasks metrics"
  shows "\<exists>lb' calls. balance fp lb kernels tasks metrics = Inr (lb', calls)
     \<and> map (\<lambda>c. (payload c, prio c)) calls
           = map (\<lambda>t. (data t, priority t)) (highPriority tasks @ lowPriority tasks)
     \<and> (\<forall>c \<in> set calls. kernel c < length kernels)
     \<and> strategyEnum lb' = strategyEnum (if shouldSwitchStrategy fp metrics then switchStrategy lb else lb)
     \<and> strategy lb' = strategy (if shouldSwitchStrategy fp metrics then switchStrategy lb else lb)
     \<and> totalDecisions lb' = totalDecisions lb + of_nat (length tasks)
     \<and> resourceAwareDecisions lb' + workloadSpecificDecisions lb'
           = resourceAwareDecisions lb + workloadSpecificDecisions lb
             + (if strategyEnum lb' = ResourceAware \<or> strategyEnum lb' = WorkloadSpecific
                then of_nat (length tasks) else 0)"
proof -
  define lb1 where "lb1 = (if shouldSwitchStrategy fp metrics then switchStrategy lb else lb)"
  from assms have ne: "metrics \<noteq> []" and len: "length metrics = length kernels"
    by (auto simp: noop_def)
  have c1: "totalDecisions lb1 = totalDecisions lb"
      "resourceAwareDecisions lb1 = resourceAwareDecisions lb"
      "workloadSpecificDecisions lb1 = workloadSpecificDecisions lb"
    by (simp_all add: lb1_def switchStrategy_fields)
  obtain lb2 hs where h: "dispatchAll fp (length kernels) metrics lb1 (highPriority tasks) = Inr (lb2, hs)"
    "map (\<lambda>c. (payload c, prio c)) hs = map (\<lambda>t. (data t, priority t)) (highPriority tasks)"
    "\<forall>c \<in> set hs. kernel c < length kernels"
    "strategyEnum lb2 = strategyEnum lb1" "strategy lb2 = strategy lb1"
    "totalDecisions lb2 = totalDecisions lb1 + of_nat (length (highPriority tasks))"
    "resourceAwareDecisions lb2 + workloadSpecificDecisions lb2
               = resourceAwareDecisions lb1 + workloadSpecificDecisions lb1
                 + (if strategyEnum lb1 = ResourceAware \<or> strategyEnum lb1 = WorkloadSpecific
                    then of_nat (length (highPriority tasks)) else 0)"
    using dispatchAll_ok [OF ne len, of fp lb1 "highPriority tasks"] by blast
  obtain lb3 ls where l: "dispatchAll fp (length kernels) metrics lb2 (lowPriority tasks) = Inr (lb3, ls)"
    "map (\<lambda>c. (payload c, prio c)) ls = map (\<lambda>t. (data t, priority t)) (lowPriority tasks)"
    "\<forall>c \<in> set ls. kernel c < length kernels"
    "strategyEnum lb3 = strategyEnum lb2" "strategy lb3 = strategy lb2"
    "totalDecisions lb3 = totalDecisions lb2 + of_nat (length (lowPriority tasks))"
    "resourceAwareDecisions lb3 + workloadSpecificDecisions lb3
               = resourceAwareDecisions lb2 + workloadSpecificDecisions lb2
                 + (if strategyEnum lb2 = ResourceAware \<or> strategyEnum lb2 = WorkloadSpecific
                    then of_nat (length (lowPriority tasks)) else 0)"
    using dispatchAll_ok [OF ne len, of fp lb2 "lowPriority tasks"] by blast
  have split: "length (highPriority tasks) + length (lowPriority tasks) = length tasks"
    unfolding highPriority_def lowPriority_def by (rule sum_length_filter_compl)
  have b: "balance fp lb kernels tasks metrics = Inr (lb3, hs @ ls)"
    using assms h(1) l(1) by (simp add: balance_def noop_def lb1_def [symmetric])
  have t: "totalDecisions lb3 = totalDecisions lb + of_nat (length tasks)"
    using h(6) l(6) c1(1) split [symmetric] by simp
  have s: "strategyEnum lb3 = strategyEnum lb1" "strategy lb3 = strategy lb1"
    using h(4,5) l(4,5) by simp_all
  have p: "resourceAwareDecisions lb3 + workloadSpecificDecisions lb3
           = resourceAwareDecisions lb + workloadSpecificDecisions lb
             + (if strategyEnum lb3 = ResourceAware \<or> strategyEnum lb3 = WorkloadSpecific
                then of_nat (length tasks) else 0)"
    using h(4,7) l(4,7) c1(2,3) split [symmetric] by simp
  show ?thesis
    using b h(2,3) l(2,3) t s p unfolding lb1_def by auto
qed

lemma append_order:
  assumes "\<forall>x \<in> set as. Q x" and "\<forall>x \<in> set bs. \<not> Q x"
    and "i < length (as @ bs)" and "j < length (as @ bs)"
    and "Q ((as @ bs) ! i)" and "\<not> Q ((as @ bs) ! j)"
  shows "i < j"
proof -
  have "i < length as"
  proof (rule ccontr)
    assume "\<not> i < length as"
    then have "(as @ bs) ! i = bs ! (i - length as)" "i - length as < length bs"
      using assms(3) by (auto simp: nth_append)
    then show False using assms(2,5) by (metis nth_mem)
  qed
  moreover have "\<not> j < length as"
  proof
    assume "j < length as"
    then have "(as @ bs) ! j = as ! j" by (simp add: nth_append)
    then show False using assms(1,6) \<open>j < length as\<close> by (metis nth_mem)
  qed
  ultimately show ?thesis by simp
qed


lemma idle_keeps:
  "\<not> shouldSwitchStrategy binary64 [idleMetrics]"
  "\<not> shouldSwitchStrategy binary64 [idleMetrics, idleMetrics]"
  "\<not> shouldSwitchStrategy binary64 [idleMetrics, fastMetrics]"
  by code_simp+

lemma default_strategy:
  "strategyEnum (LoadBalancer_new fp) = HybridAdaptive" "rrIdx (LoadBalancer_new fp) = 0"
  "totalDecisions (LoadBalancer_new fp) = 0" "resourceAwareDecisions (LoadBalancer_new fp) = 0"
  "workloadSpecificDecisions (LoadBalancer_new fp) = 0"
  by (simp_all add: LoadBalancer_new_def)

text \<open>
  Claim C4 (priority precedence). Every call of \<open>balance\<close> returns normally (no vector
  is indexed out of range). The \<open>scheduleTask\<close> calls it makes are, in order, the tasks
  of priority at least 7 in their input order followed by the tasks of priority below 7
  in their input order (none at all when the call returns early); so every call for a
  task of priority at least 7 is made before every call for a task of priority below 7.
\<close>
theorem balance_priority_precedence:
  "\<exists>lb' calls. balance fp lb kernels tasks metrics = Inr (lb', calls) \<and>
     map (\<lambda>c. (payload c, prio c)) calls =
       (if kernels = [] \<or> tasks = [] \<or> length metrics \<noteq> length kernels then []
        else map (\<lambda>t. (data t, priority t))
               (filter (\<lambda>t. 7 \<le> priority t) tasks @ filter (\<lambda>t. priority t < 7) tasks)) \<and>
     (\<forall>i j. i < length calls \<and> j < length calls \<and> 7 \<le> prio (calls ! i) \<and> prio (calls ! j) < 7
        \<longrightarrow> i < j)"
proof (cases "noop kernels tasks metrics")
  case True
  then show ?thesis
    using balance_noop [OF True, of fp lb] by (simp add: noop_def)
next
  case False
  obtain lb' calls where b: "balance fp lb kernels tasks metrics = Inr (lb', calls)"
    and m: "map (\<lambda>c. (payload c, prio c)) calls
           = map (\<lambda>t. (data t, priority t)) (highPriority tasks @ lowPriority tasks)"
    using balance_run [OF False, of fp lb] by blast
  have low: "lowPriority tasks = filter (\<lambda>t. priority t < 7) tasks"
    by (simp add: lowPriority_def not_le)
  have "map snd (map (\<lambda>c. (payload c, prio c)) calls)
           = map snd (map (\<lambda>t. (data t, priority t)) (highPriority tasks @ lowPriority tasks))"
    using m by simp
  then have pr: "map prio calls = map priority (highPriority tasks) @ map priority (lowPriority tasks)"
    by (simp add: comp_def)
  have ord: "i < j" if "i < length calls" "j < length calls" "7 \<le> prio (calls ! i)" "prio (calls ! j) < 7" for i j
  proof (rule append_order [where Q = "\<lambda>p. 7 \<le> p" and as = "map priority (highPriority tasks)"
        and bs = "map priority (lowPriority tasks)"])
    show "\<forall>x \<in> set (map priority (highPriority tasks)). 7 \<le> x"
      by (auto simp: highPriority_def)
    show "\<forall>x \<in> set (map priority (lowPriority tasks)). \<not> 7 \<le> x"
      by (auto simp: lowPriority_def)
    have l: "length (map priority (highPriority tasks) @ map priority (lowPriority tasks)) = length calls"
      using pr [symmetric] by (metis length_map)
    show "i < length (map priority (highPriority tasks) @ map priority (lowPriority tasks))"
      using that(1) l by simp
    show "j < length (map priority (highPriority tasks) @ map priority (lowPriority tasks))"
      using that(2) l by simp
    show "7 \<le> (map priority (highPriority tasks) @ map priority (lowPriority tasks)) ! i"
      using that(1,3) pr [symmetric] by simp
    show "\<not> 7 \<le> (map priority (highPriority tasks) @ map priority (lowPriority tasks)) ! j"
      using that(2,4) pr [symmetric] by simp
  qed
  show ?thesis
    using b m low False ord by (auto simp: noop_def highPriority_def)
qed

text \<open>Scenario S3 of the specification: priorities 1, 8, 2, 9 on two kernels.\<close>
theorem balance_priority_precedence_witness:
  "case balance binary64 (LoadBalancer_new binary64) [(), ()]
          [mkTask [1] 1 MIXED, mkTask [2] 8 MIXED, mkTask [3] 2 MIXED, mkTask [4] 9 MIXED]
          [idleMetrics, idleMetrics] of
     Inl e \<Rightarrow> False
   | Inr (lb', calls) \<Rightarrow>
       map (\<lambda>c. (payload c, prio c)) calls = [([2], 8), ([4], 9), ([1], 1), ([3], 2)] \<and>
       7 \<le> prio (calls ! 1) \<and> prio (calls ! 2) < 7 \<and> (1::nat) < 2"
  using balance_priority_precedence [of binary64 "LoadBalancer_new binary64" "[(), ()]"
          "[mkTask [1] 1 MIXED, mkTask [2] 8 MIXED, mkTask [3] 2 MIXED, mkTask [4] 9 MIXED]"
          "[idleMetrics, idleMetrics]"]
  by (auto simp: mkTask_def)




lemma balance_counters:
  "\<exists>lb' calls. balance fp lb kernels tasks metrics = Inr (lb', calls)
     \<and> length calls = (if noop kernels tasks metrics then 0 else length tasks)
     \<and> totalDecisions lb' = totalDecisions lb + of_nat (length calls)
     \<and> resourceAwareDecisions lb' + workloadSpecificDecisions lb'
           = resourceAwareDecisions lb + workloadSpecificDecisions lb
             + (if countedStrategy (strategyEnum lb') then of_nat (length calls) else 0)"
proof (cases "noop kernels tasks metrics")
  case True
  then show ?thesis
    using balance_noop [OF True, of fp lb] by simp
next
  case False
  obtain lb' calls where b: "balance fp lb kernels tasks metrics = Inr (lb', calls)"
    and m: "map (\<lambda>c. (payload c, prio c)) calls
           = map (\<lambda>t. (data t, priority t)) (highPriority tasks @ lowPriority tasks)"
    and t: "totalDecisions lb' = totalDecisions lb + of_nat (length tasks)"
    and p: "resourceAwareDecisions lb' + workloadSpecificDecisions lb'
           = resourceAwareDecisions lb + workloadSpecificDecisions lb
             + (if strategyEnum lb' = ResourceAware \<or> strategyEnum lb' = WorkloadSpecific
                then of_nat (length tasks) else 0)"
    using balance_run [OF False, of fp lb] by blast
  have "length (map (\<lambda>c. (payload c, prio c)) calls)
           = length (map (\<lambda>t. (data t, priority t)) (highPriority tasks @ lowPriority tasks))"
    using m by simp
  then have "length calls = length (highPriority tasks) + length (lowPriority tasks)"
    by simp
  also have "\<dots> = length tasks"
    unfolding highPriority_def lowPriority_def by (rule sum_length_filter_compl)
  finally have l: "length calls = length tasks" .
  show ?thesis
    using b l t p False by (simp add: countedStrategy_def)
qed

text \<open>
  Claim C8, amended (decision counters). After any sequence of \<open>balance\<close> calls,
  \<open>totalDecisions\<close> has grown by the number of tasks dispatched (modulo \<open>2^64\<close>), and the
  sum of the two per-strategy counters has grown by the number of tasks dispatched in
  the calls that ran under ResourceAware or WorkloadSpecific; tasks dispatched under
  HybridAdaptive, PriorityAdaptive, LeastLoaded or RoundRobin are counted in
  \<open>totalDecisions\<close> only. A call dispatches all its tasks unless it returns early.
\<close>
theorem decision_counters:
  "\<exists>lb' logs. balance_seq fp lb reqs = Inr (lb', logs) \<and>
     map (\<lambda>(s, calls). length calls) logs =
       map (\<lambda>(kernels, tasks, metrics).
              if kernels = [] \<or> tasks = [] \<or> length metrics \<noteq> length kernels then 0
              else length tasks) reqs \<and>
     totalDecisions lb' = totalDecisions lb + of_nat (dispatched logs) \<and>
     resourceAwareDecisions lb' + workloadSpecificDecisions lb' =
       resourceAwareDecisions lb + workloadSpecificDecisions lb + of_nat (dispatchedCounted logs)"
proof (induction reqs arbitrary: lb)
  case Nil
  show ?case by (simp add: dispatched_def dispatchedCounted_def)
next
  case (Cons r rs)
  obtain kernels tasks metrics where r: "r = (kernels, tasks, metrics)" by (cases r) auto
  obtain lb1 calls where b: "balance fp lb kernels tasks metrics = Inr (lb1, calls)"
     "length calls = (if noop kernels tasks metrics then 0 else length tasks)"
     "totalDecisions lb1 = totalDecisions lb + of_nat (length calls)"
     "resourceAwareDecisions lb1 + workloadSpecificDecisions lb1
           = resourceAwareDecisions lb + workloadSpecificDecisions lb
             + (if countedStrategy (strategyEnum lb1) then of_nat (length calls) else 0)"
    using balance_counters [of fp lb kernels tasks metrics] by blast
  from Cons.IH [of lb1] obtain lb2 logs where i: "balance_seq fp lb1 rs = Inr (lb2, logs)"
     "map (\<lambda>(s, calls). length calls) logs =
       map (\<lambda>(kernels, tasks, metrics).
              if kernels = [] \<or> tasks = [] \<or> length metrics \<noteq> length kernels then 0
              else length tasks) rs"
     "totalDecisions lb2 = totalDecisions lb1 + of_nat (dispatched logs)"
     "resourceAwareDecisions lb2 + workloadSpecificDecisions lb2 =
       resourceAwareDecisions lb1 + workloadSpecificDecisions lb1 + of_nat (dispatchedCounted logs)"
    by blast
  have s: "balance_seq fp lb (r # rs) = Inr (lb2, (strategyEnum lb1, calls) # logs)"
    using b(1) i(1) by (simp add: r)
  have t: "totalDecisions lb2 = totalDecisions lb + of_nat (dispatched ((strategyEnum lb1, calls) # logs))"
    using b(3) i(3) by (simp add: dispatched_def)
  have p: "resourceAwareDecisions lb2 + workloadSpecificDecisions lb2 =
       resourceAwareDecisions lb + workloadSpecificDecisions lb
         + of_nat (dispatchedCounted ((strategyEnum lb1, calls) # logs))"
    using b(4) i(4) by (simp add: dispatchedCounted_def)
  show ?case
    using s t p b(2) i(2) by (simp add: r noop_def)
qed

theorem decision_counters_witness:
  "case balance_seq binary64 (setStrategy (LoadBalancer_new binary64) ResourceAware)
          [([()], [mkTask [1] 5 MIXED, mkTask [2] 9 MIXED], [idleMetrics]),
           ([()], [mkTask [3] 5 MIXED], [idleMetrics, idleMetrics])] of
     Inl e \<Rightarrow> False
   | Inr (lb', logs) \<Rightarrow>
       map (\<lambda>(s, calls). length calls) logs = [2, 0] \<and>
       totalDecisions lb' = 2 \<and>
       resourceAwareDecisions lb' + workloadSpecificDecisions lb' = of_nat (dispatchedCounted logs)"
  using decision_counters [of binary64 "setStrategy (LoadBalancer_new binary64) ResourceAware"
          "[([()], [mkTask [1] 5 MIXED, mkTask [2] 9 MIXED], [idleMetrics]),
           ([()], [mkTask [3] 5 MIXED], [idleMetrics, idleMetrics])]"]
  by (auto simp: setStrategy_def LoadBalancer_new_def dispatched_def)

text \<open>
  The claim as stated fails under the default strategy: one task is dispatched and the
  per-strategy counters still sum to 0.
\<close>
theorem decision_counters_counterexample:
  "case balance_seq binary64 (LoadBalancer_new binary64)
          [([()], [mkTask [1] 5 MIXED], [idleMetrics])] of
     Inl e \<Rightarrow> False
   | Inr (lb', logs) \<Rightarrow>
       dispatched logs = 1 \<and>
       resourceAwareDecisions lb' + workloadSpecificDecisions lb' = 0 \<and>
       totalDecisions lb' = 1"
proof -
  have n: "\<not> noop [()] [mkTask [1] 5 MIXED] [idleMetrics]"
    by (simp add: noop_def)
  obtain lb' calls where b: "balance binary64 (LoadBalancer_new binary64) [()] [mkTask [1] 5 MIXED]
        [idleMetrics] = Inr (lb', calls)"
    and l: "length calls = (if noop [()] [mkTask [1] 5 MIXED] [idleMetrics] then 0
                            else length [mkTask [1] 5 MIXED])"
    and t: "totalDecisions lb' = totalDecisions (LoadBalancer_new binary64) + of_nat (length calls)"
    and p: "resourceAwareDecisions lb' + workloadSpecificDecisions lb'
           = resourceAwareDecisions (LoadBalancer_new binary64)
             + workloadSpecificDecisions (LoadBalancer_new binary64)
             + (if countedStrategy (strategyEnum lb') then of_nat (length calls) else 0)"
    using balance_counters [of binary64 "LoadBalancer_new binary64" "[()]" "[mkTask [1] 5 MIXED]"
        "[idleMetrics]"] by blast
  have s: "strategyEnum lb' = HybridAdaptive"
    using balance_run [OF n, of binary64 "LoadBalancer_new binary64"] b idle_keeps(1)
    by (auto simp: default_strategy)
  show ?thesis
    using b l t p s n by (simp add: dispatched_def countedStrategy_def default_strategy)
qed

lemma selections_tied:
  assumes "\<forall>t \<in> set ts. tieBreak fp lb metrics t"
  shows "fst (selections fp lb metrics r ts)
           = map (\<lambda>i. (r + i) mod length metrics) [0..<length ts]"
  using assms
proof (induction ts arbitrary: r)
  case Nil
  show ?case by simp
next
  case (Cons t ts)
  from Cons.prems have t: "tieBreak fp lb metrics t" and ts: "\<forall>t \<in> set ts. tieBreak fp lb metrics t"
    by simp_all
  have "fst (selections fp lb metrics r (t # ts))
          = r mod length metrics # fst (selections fp lb metrics ((r + 1) mod length metrics) ts)"
    using t by (simp add: split_beta)
  also have "\<dots> = r mod length metrics
               # map (\<lambda>i. ((r + 1) mod length metrics + i) mod length metrics) [0..<length ts]"
    by (simp only: Cons.IH [OF ts])
  also have "\<dots> = map (\<lambda>i. (r + i) mod length metrics) [0..<Suc (length ts)]"
    by (rule rr_shift [symmetric])
  finally show ?case by simp
qed

lemma selections_untied:
  "\<forall>t \<in> set ts. \<not> tieBreak fp lb metrics t \<Longrightarrow>
     selections fp lb metrics r ts = (map (bestKernel fp lb metrics) ts, r)"
  by (induction ts) simp_all

lemma priority_split:
  "set (highPriority tasks @ lowPriority tasks) = set tasks"
  "length (highPriority tasks @ lowPriority tasks) = length tasks"
proof -
  show "set (highPriority tasks @ lowPriority tasks) = set tasks"
    by (auto simp: highPriority_def lowPriority_def)
  have "length (highPriority tasks) + length (lowPriority tasks) = length tasks"
    unfolding highPriority_def lowPriority_def by (rule sum_length_filter_compl)
  then show "length (highPriority tasks @ lowPriority tasks) = length tasks"
    by simp
qed

lemma effective_fields:
  "rrIdx (effective fp lb metrics) = rrIdx lb"
  by (simp add: effective_def switchStrategy_fields)

lemma balance_selections:
  assumes "\<not> noop kernels tasks metrics"
  shows "\<exists>lb' calls. balance fp lb kernels tasks metrics = Inr (lb', calls) \<and>
           (map kernel calls, rrIdx lb')
             = selections fp (effective fp lb metrics) metrics (rrIdx lb)
                 (highPriority tasks @ lowPriority tasks)"
proof -
  define lb1 where "lb1 = effective fp lb metrics"
  define n where "n = length kernels"
  from assms have ne: "metrics \<noteq> []" and len: "length metrics = n"
    by (auto simp: noop_def n_def)
  have r1: "rrIdx lb1 = rrIdx lb"
    by (simp add: lb1_def effective_fields)
  obtain lb2 hs where h: "dispatchAll fp n metrics lb1 (highPriority tasks) = Inr (lb2, hs)"
     "(map kernel hs, rrIdx lb2) = selections fp lb1 metrics (rrIdx lb1) (highPriority tasks)"
     "sameWeights lb2 lb1"
    using dispatchAll_selections [OF ne len, of fp lb1 "highPriority tasks"] by blast
  obtain lb3 ls where l: "dispatchAll fp n metrics lb2 (lowPriority tasks) = Inr (lb3, ls)"
     "(map kernel ls, rrIdx lb3) = selections fp lb2 metrics (rrIdx lb2) (lowPriority tasks)"
    using dispatchAll_selections [OF ne len, of fp lb2 "lowPriority tasks"] by blast
  have l2: "selections fp lb1 metrics (rrIdx lb2) (lowPriority tasks) = (map kernel ls, rrIdx lb3)"
    using l(2) sameWeights_selections [OF h(3), of fp metrics "rrIdx lb2" "lowPriority tasks"]
    by simp
  have h2: "selections fp lb1 metrics (rrIdx lb) (highPriority tasks) = (map kernel hs, rrIdx lb2)"
    using h(2) r1 by simp
  have b: "balance fp lb kernels tasks metrics = Inr (lb3, hs @ ls)"
    using assms h(1) l(1)
    by (simp add: balance_def noop_def lb1_def effective_def n_def)
  have "selections fp lb1 metrics (rrIdx lb) (highPriority tasks @ lowPriority tasks)
          = (map kernel (hs @ ls), rrIdx lb3)"
    by (simp add: selections_append h2 l2)
  with b show ?thesis
    unfolding lb1_def by simp
qed

lemma idle_pair_tied:
  "tieBreak binary64 (LoadBalancer_new binary64) [idleMetrics, idleMetrics] (mkTask [1] 5 MIXED)"
  by code_simp

lemma idle_pair_best:
  "bestKernel binary64 (setStrategy (LoadBalancer_new binary64) WorkloadSpecific)
     [idleMetrics, idleMetrics] (mkTask [1] 5 MIXED) = 0"
  by code_simp

lemma idle_fast_scores:
  "resourceTie binary64 (LoadBalancer_new binary64) [idleMetrics, fastMetrics]
     (mkTask [1] 5 CPU_INTENSIVE)"
  "\<not> workloadTie binary64 [idleMetrics, fastMetrics] (mkTask [1] 5 CPU_INTENSIVE)"
  "bestKernel binary64 (LoadBalancer_new binary64) [idleMetrics, fastMetrics]
     (mkTask [1] 5 CPU_INTENSIVE) = 1"
  by code_simp+

text \<open>
  Claim C7, amended (tie-break fairness). In a call of \<open>balance\<close> that does not return
  early, the kernels selected are those of the tie-break rule applied, task by task in
  dispatch order, with the strategy in force after the adaptive switch: when the rule
  applies to a task the kernel is the cursor modulo the number of kernels and the
  cursor advances, otherwise the kernel is the best-scoring one and the cursor stays.
  The rule applies under ResourceAware, PriorityAdaptive, LeastLoaded and RoundRobin
  when no kernel's resource score differs from the first kernel's by more than 0.001,
  under HybridAdaptive only when in addition no kernel's workload score differs from
  the first kernel's by more than 0.001, and never under WorkloadSpecific (the
  definition of \<open>tieBreak\<close>). Hence, if the rule applies to every task, the k-th
  dispatch goes to kernel \<open>(rrIdx + k) mod n\<close>, and with as many tasks as kernels every
  kernel is selected exactly once; if it applies to no task, as always under
  WorkloadSpecific, every task goes to its best-scoring kernel and the cursor is left
  as it was.
\<close>
theorem tie_break_round_robin:
  assumes "kernels \<noteq> []" and "tasks \<noteq> []" and "length metrics = length kernels"
    and "eff = effective fp lb metrics"
  shows "\<exists>lb' calls. balance fp lb kernels tasks metrics = Inr (lb', calls) \<and>
           (map kernel calls, rrIdx lb')
             = selections fp eff metrics (rrIdx lb) (highPriority tasks @ lowPriority tasks) \<and>
           ((\<forall>t \<in> set tasks. tieBreak fp eff metrics t) \<longrightarrow>
              map kernel calls = map (\<lambda>i. (rrIdx lb + i) mod length kernels) [0..<length tasks] \<and>
              (length tasks = length kernels \<longrightarrow>
                 distinct (map kernel calls) \<and> set (map kernel calls) = {0..<length kernels})) \<and>
           ((\<forall>t \<in> set tasks. \<not> tieBreak fp eff metrics t) \<longrightarrow>
              map kernel calls = map (bestKernel fp eff metrics) (highPriority tasks @ lowPriority tasks) \<and>
              rrIdx lb' = rrIdx lb) \<and>
           (strategyEnum eff = WorkloadSpecific \<longrightarrow>
              map kernel calls = map (bestKernel fp eff metrics) (highPriority tasks @ lowPriority tasks) \<and>
              rrIdx lb' = rrIdx lb) \<and>
           (strategyEnum eff = HybridAdaptive \<and> (\<forall>t \<in> set tasks. \<not> workloadTie fp metrics t) \<longrightarrow>
              map kernel calls = map (bestKernel fp eff metrics) (highPriority tasks @ lowPriority tasks) \<and>
              rrIdx lb' = rrIdx lb)"
proof -
  let ?ts = "highPriority tasks @ lowPriority tasks"
  have nn: "\<not> noop kernels tasks metrics"
    using assms(1,2,3) by (simp add: noop_def)
  obtain lb' calls where b: "balance fp lb kernels tasks metrics = Inr (lb', calls)"
    and s: "(map kernel calls, rrIdx lb') = selections fp eff metrics (rrIdx lb) ?ts"
    using balance_selections [OF nn, of fp lb] assms(4) by auto
  have k: "map kernel calls = fst (selections fp eff metrics (rrIdx lb) ?ts)"
    and c: "rrIdx lb' = snd (selections fp eff metrics (rrIdx lb) ?ts)"
    using s [symmetric] by simp_all
  have tied: "map kernel calls = map (\<lambda>i. (rrIdx lb + i) mod length kernels) [0..<length tasks]"
    if "\<forall>t \<in> set tasks. tieBreak fp eff metrics t"
  proof -
    have "\<forall>t \<in> set ?ts. tieBreak fp eff metrics t"
      using that by (simp only: priority_split(1))
    from selections_tied [OF this, of "rrIdx lb"] show ?thesis
      by (simp only: k priority_split(2) assms(3))
  qed
  have perm: "distinct (map kernel calls) \<and> set (map kernel calls) = {0..<length kernels}"
    if "\<forall>t \<in> set tasks. tieBreak fp eff metrics t" "length tasks = length kernels"
    using rr_perm [of "rrIdx lb" "length kernels"] by (simp only: tied [OF that(1)] that(2))
  have untied: "map kernel calls = map (bestKernel fp eff metrics) ?ts \<and> rrIdx lb' = rrIdx lb"
    if "\<forall>t \<in> set tasks. \<not> tieBreak fp eff metrics t"
  proof -
    have "\<forall>t \<in> set ?ts. \<not> tieBreak fp eff metrics t"
      using that by (simp only: priority_split(1))
    from selections_untied [OF this, of "rrIdx lb"] show ?thesis
      by (simp add: k c)
  qed
  have ws: "map kernel calls = map (bestKernel fp eff metrics) ?ts \<and> rrIdx lb' = rrIdx lb"
    if "strategyEnum eff = WorkloadSpecific"
    by (rule untied) (simp add: tieBreak_def that)
  have hy: "map kernel calls = map (bestKernel fp eff metrics) ?ts \<and> rrIdx lb' = rrIdx lb"
    if "strategyEnum eff = HybridAdaptive" "\<forall>t \<in> set tasks. \<not> workloadTie fp metrics t"
    by (rule untied) (simp add: tieBreak_def that)
  from b s tied perm untied ws hy show ?thesis
    by blast
qed

text \<open>Two tasks on two kernels with equal metrics: under the default HybridAdaptive the
  tasks go to kernels 0 and 1; under WorkloadSpecific the scores are just as equal and
  both tasks go to kernel 0.\<close>
theorem tie_break_round_robin_witness:
  "(case balance binary64 (LoadBalancer_new binary64) [(), ()]
           [mkTask [1] 5 MIXED, mkTask [1] 5 MIXED] [idleMetrics, idleMetrics] of
      Inl e \<Rightarrow> False
    | Inr (lb', calls) \<Rightarrow> map kernel calls = [0, 1] \<and> distinct (map kernel calls)) \<and>
   (case balance binary64 (setStrategy (LoadBalancer_new binary64) WorkloadSpecific) [(), ()]
           [mkTask [1] 5 MIXED, mkTask [1] 5 MIXED] [idleMetrics, idleMetrics] of
      Inl e \<Rightarrow> False
    | Inr (lb', calls) \<Rightarrow> map kernel calls = [0, 0] \<and> rrIdx lb' = 0)"
proof -
  let ?ts = "[mkTask [1] 5 MIXED, mkTask [1] 5 MIXED]"
  let ?ms = "[idleMetrics, idleMetrics]"
  let ?ws = "setStrategy (LoadBalancer_new binary64) WorkloadSpecific"
  have h1: "[(), ()] \<noteq> []" and h2: "?ts \<noteq> []" and h3: "length ?ms = length [(), ()]"
    by simp_all
  have e1: "LoadBalancer_new binary64 = effective binary64 (LoadBalancer_new binary64) ?ms"
    and e2: "?ws = effective binary64 ?ws ?ms"
    by (simp_all add: effective_def idle_keeps(2))
  have t1: "\<forall>t \<in> set ?ts. tieBreak binary64 (LoadBalancer_new binary64) ?ms t"
    by (simp add: idle_pair_tied)
  have s2: "strategyEnum ?ws = WorkloadSpecific"
    by (simp add: setStrategy_def)
  have hp: "highPriority ?ts @ lowPriority ?ts = ?ts"
    by (simp add: highPriority_def lowPriority_def mkTask_def)
  have r: "map (\<lambda>i. (rrIdx (LoadBalancer_new binary64) + i) mod length [(), ()]) [0..<length ?ts]
             = [0, 1]"
    by (simp add: default_strategy upt_conv_Cons)
  have r2: "rrIdx ?ws = 0"
    by (simp add: setStrategy_def default_strategy)
  from tie_break_round_robin [OF h1 h2 h3 e1] t1
  obtain lb' calls where a: "balance binary64 (LoadBalancer_new binary64) [(), ()] ?ts ?ms
        = Inr (lb', calls)"
    "map kernel calls
       = map (\<lambda>i. (rrIdx (LoadBalancer_new binary64) + i) mod length [(), ()]) [0..<length ?ts]"
    by blast
  from tie_break_round_robin [OF h1 h2 h3 e2] s2
  obtain lb'' calls' where b: "balance binary64 ?ws [(), ()] ?ts ?ms = Inr (lb'', calls')"
    "map kernel calls' = map (bestKernel binary64 ?ws ?ms) (highPriority ?ts @ lowPriority ?ts)"
    "rrIdx lb'' = rrIdx ?ws"
    by blast
  show ?thesis
    using a(1) b(1) by (simp add: a(2) b(2,3) r [simplified] r2 hp idle_pair_best default_strategy)
qed

text \<open>
  The claim as stated fails under HybridAdaptive: the resource scores of the two
  kernels are tied, their workload scores are not, both tasks go to kernel 1 and the
  cursor does not move.
\<close>
theorem tie_break_round_robin_counterexample:
  "resourceTie binary64 (LoadBalancer_new binary64) [idleMetrics, fastMetrics]
     (mkTask [1] 5 CPU_INTENSIVE) \<and>
   (case balance binary64 (LoadBalancer_new binary64) [(), ()]
           [mkTask [1] 5 CPU_INTENSIVE, mkTask [1] 5 CPU_INTENSIVE] [idleMetrics, fastMetrics] of
      Inl e \<Rightarrow> False
    | Inr (lb', calls) \<Rightarrow>
        map kernel calls = [1, 1] \<and> rrIdx lb' = rrIdx (LoadBalancer_new binary64))"
proof -
  let ?ts = "[mkTask [1] 5 CPU_INTENSIVE, mkTask [1] 5 CPU_INTENSIVE]"
  let ?ms = "[idleMetrics, fastMetrics]"
  have nn: "\<not> noop [(), ()] ?ts ?ms"
    by (simp add: noop_def)
  have e: "effective binary64 (LoadBalancer_new binary64) ?ms = LoadBalancer_new binary64"
    by (simp add: effective_def idle_keeps(3))
  have hp: "highPriority ?ts @ lowPriority ?ts = ?ts"
    by (simp add: highPriority_def lowPriority_def mkTask_def)
  have u: "\<forall>t \<in> set ?ts. \<not> tieBreak binary64 (LoadBalancer_new binary64) ?ms t"
    by (simp add: tieBreak_def default_strategy idle_fast_scores(2))
  from balance_selections [OF nn, of binary64 "LoadBalancer_new binary64"]
  obtain lb' calls where b: "balance binary64 (LoadBalancer_new binary64) [(), ()] ?ts ?ms
        = Inr (lb', calls)"
    and s: "(map kernel calls, rrIdx lb')
             = selections binary64 (LoadBalancer_new binary64) ?ms
                 (rrIdx (LoadBalancer_new binary64)) ?ts"
    by (auto simp only: e hp)
  have "selections binary64 (LoadBalancer_new binary64) ?ms (rrIdx (LoadBalancer_new binary64)) ?ts
          = (map (bestKernel binary64 (LoadBalancer_new binary64) ?ms) ?ts,
             rrIdx (LoadBalancer_new binary64))"
    by (rule selections_untied [OF u])
  with s have "map kernel calls = [1, 1]" "rrIdx lb' = rrIdx (LoadBalancer_new binary64)"
    by (simp_all add: idle_fast_scores(3))
  with b idle_fast_scores(1) show ?thesis
    by simp
qed
text \<open>
  Claim C6 (weight normalization) does not hold of the code: \<open>setResourceWeights\<close> stores
  its arguments as they are. After \<open>setResourceWeights(1, 1, 1, 1)\<close> the four weights sum
  to 4, and the resource score of a kernel with every resource free is 4, the sum of
  the weights that scoring uses (computed in binary64, where these sums are exact).
\<close>

theorem setResourceWeights_stores_arguments:
  "d_add (d_add (d_add
     (cpuWeight (setResourceWeights (LoadBalancer_new binary64)
        (Finite False 1) (Finite False 1) (Finite False 1) (Finite False 1)))
     (memoryWeight (setResourceWeights (LoadBalancer_new binary64)
        (Finite False 1) (Finite False 1) (Finite False 1) (Finite False 1))))
     (networkWeight (setResourceWeights (LoadBalancer_new binary64)
        (Finite False 1) (Finite False 1) (Finite False 1) (Finite False 1))))
     (energyWeight (setResourceWeights (LoadBalancer_new binary64)
        (Finite False 1) (Finite False 1) (Finite False 1) (Finite False 1)))
     = Finite False 4 \<and>
   calculateResourceScore binary64
     (setResourceWeights (LoadBalancer_new binary64)
        (Finite False 1) (Finite False 1) (Finite False 1) (Finite False 1))
     fullMetrics (mkTask [] 5 MIXED) = Finite False 4"
  by code_simp

section \<open>Properties of the dynamic cache\<close>

lemma notify_fields [simp]:
  "cache (notify c k v) = cache c" "lruList (notify c k v) = lruList c"
  "allocatedSize (notify c k v) = allocatedSize c" "evictions (notify c k v) = evictions c"
  "evictionCallback (notify c k v) = evictionCallback c"
  "totalOperations (notify c k v) = totalOperations c"
  by (simp_all add: notify_def)

lemma set_butlast_distinct:
  assumes "distinct xs" and "xs \<noteq> []"
  shows "set (butlast xs) = set xs - {last xs}"
proof -
  have "xs = butlast xs @ [last xs]" using assms(2) by simp
  then have "distinct (butlast xs @ [last xs])" "set xs = set (butlast xs @ [last xs])"
    using assms(1) by simp_all
  then show ?thesis by auto
qed

lemma length_removeAll_distinct:
  assumes "distinct xs" and "x \<in> set xs"
  shows "Suc (length (removeAll x xs)) = length xs"
proof -
  have "removeAll x xs = remove1 x xs"
    using assms(1) by (simp add: distinct_remove1_removeAll)
  then show ?thesis
    using assms(2) by (simp add: length_remove1) (cases xs; auto)
qed

lemma consistent_empty_iff: "consistent c \<Longrightarrow> (lruList c = []) = (cache c = [])"
  by (auto simp: consistent_def)

lemma consistent_lookup:
  "consistent c \<Longrightarrow> (map_of (cache c) k = None) = (k \<notin> set (lruList c))"
  by (simp add: consistent_def map_of_eq_None_iff)

lemma evictBack_inv:
  assumes "consistent c" and "lruList c \<noteq> []"
  shows "consistent (evictBack c)"
    and "Suc (length (cache (evictBack c))) = length (cache c)"
    and "allocatedSize (evictBack c) = allocatedSize c"
    and "lruList (evictBack c) = butlast (lruList c)"
    and "map fst (cache (evictBack c)) = removeAll (last (lruList c)) (map fst (cache c))"
proof -
  have mem: "last (lruList c) \<in> set (lruList c)" using assms(2) by simp
  then obtain e where e: "map_of (cache c) (last (lruList c)) = Some e"
    using consistent_lookup [OF assms(1), of "last (lruList c)"] by auto
  have eq: "evictBack c = (notify c (last (lruList c)) (edata e))
               \<lparr>cache := AList.delete (last (lruList c)) (cache c), lruList := butlast (lruList c),
                evictions := evictions c + 1\<rparr>"
    by (simp add: evictBack_def e Let_def)
  have d: "distinct (map fst (cache c))" "distinct (lruList c)"
    "set (lruList c) = set (map fst (cache c))"
    using assms(1) by (simp_all add: consistent_def)
  show "lruList (evictBack c) = butlast (lruList c)" by (simp add: eq)
  show k: "map fst (cache (evictBack c)) = removeAll (last (lruList c)) (map fst (cache c))"
    by (simp add: eq delete_keys)
  show "allocatedSize (evictBack c) = allocatedSize c" by (simp add: eq)
  have "Suc (length (map fst (cache (evictBack c)))) = length (map fst (cache c))"
    unfolding k using d(1) mem d(3) by (intro length_removeAll_distinct) auto
  then show "Suc (length (cache (evictBack c))) = length (cache c)" by simp
  show "consistent (evictBack c)"
    unfolding consistent_def k
    using d set_butlast_distinct [OF d(2) assms(2)]
    by (simp add: eq distinct_butlast distinct_removeAll) 
qed

lemma evictLRU_inv:
  assumes "consistent c"
  shows "consistent (evictLRU c)"
    and "allocatedSize (evictLRU c) = allocatedSize c"
    and "length (cache (evictLRU c)) = length (cache c) - 1"
    and "set (lruList (evictLRU c)) \<subseteq> set (lruList c)"
proof -
  show "consistent (evictLRU c)"
    using assms evictBack_inv(1) [OF assms] by (simp add: evictLRU_def)
  show "allocatedSize (evictLRU c) = allocatedSize c"
    using evictBack_inv(3) [OF assms] by (simp add: evictLRU_def)
  show "length (cache (evictLRU c)) = length (cache c) - 1"
    using evictBack_inv(2) [OF assms] consistent_empty_iff [OF assms]
    by (auto simp: evictLRU_def)
  show "set (lruList (evictLRU c)) \<subseteq> set (lruList c)"
    using evictBack_inv(4) [OF assms] by (auto simp: evictLRU_def dest: in_set_butlastD)
qed

lemma touch_inv:
  assumes "consistent c" and "map_of (cache c) key = Some e"
  shows "consistent (c\<lparr>cache := AList.update key e' (cache c),
                       lruList := key # remove1 key (lruList c)\<rparr>)"
    and "length (AList.update key e' (cache c)) = length (cache c)"
proof -
  have mem: "key \<in> set (map fst (cache c))"
    using assms(2) by (metis map_of_eq_None_iff option.distinct(1) set_map)
  have k: "map fst (AList.update key e' (cache c)) = map fst (cache c)"
    using mem by (simp add: update_keys)
  show "length (AList.update key e' (cache c)) = length (cache c)"
    using k by (metis length_map)
  show "consistent (c\<lparr>cache := AList.update key e' (cache c),
                       lruList := key # remove1 key (lruList c)\<rparr>)"
    using assms(1) mem by (auto simp: consistent_def k)
qed

lemma insert_inv:
  assumes "consistent c" and "key \<notin> set (lruList c)"
  shows "consistent (c\<lparr>lruList := key # lruList c, cache := AList.update key e' (cache c)\<rparr>)"
    and "length (AList.update key e' (cache c)) = Suc (length (cache c))"
    and "map fst (AList.update key e' (cache c)) = map fst (cache c) @ [key]"
proof -
  have nm: "key \<notin> set (map fst (cache c))"
    using assms by (simp add: consistent_def)
  show k: "map fst (AList.update key e' (cache c)) = map fst (cache c) @ [key]"
    using nm by (simp add: update_keys)
  have "length (map fst (AList.update key e' (cache c))) = Suc (length (map fst (cache c)))"
    unfolding k by simp
  then show "length (AList.update key e' (cache c)) = Suc (length (cache c))"
    by simp
  show "consistent (c\<lparr>lruList := key # lruList c, cache := AList.update key e' (cache c)\<rparr>)"
    using assms nm by (auto simp: consistent_def k)
qed

lemma put_ttl_bounded:
  assumes "bounded c"
  shows "bounded (put_ttl c now key v ttl)"
    and "allocatedSize (put_ttl c now key v ttl) = allocatedSize c"
proof -
  let ?e = "\<lparr>edata = v, lastAccess = now, ttlSeconds = ttl\<rparr>"
  have con: "consistent c" and le: "length (cache c) \<le> max 1 (allocatedSize c)"
    using assms by (simp_all add: bounded_def)
  show "bounded (put_ttl c now key v ttl)"
  proof (cases "map_of (cache c) key")
    case (Some e)
    show ?thesis
      using touch_inv [OF con Some, of ?e] le
      by (simp add: put_ttl_def Some bounded_def consistent_def)
  next
    case None
    define c1 where "c1 = (if length (cache c) \<ge> allocatedSize c then evictLRU c else c)"
    have c1: "consistent c1" "allocatedSize c1 = allocatedSize c"
      "set (lruList c1) \<subseteq> set (lruList c)"
      using evictLRU_inv [OF con] con by (auto simp: c1_def)
    have l1: "Suc (length (cache c1)) \<le> max 1 (allocatedSize c)"
      using evictLRU_inv(3) [OF con] le by (auto simp: c1_def)
    have nk: "key \<notin> set (lruList c1)"
      using None consistent_lookup [OF con, of key] c1(3) by auto
    have eq: "put_ttl c now key v ttl =
        (c1\<lparr>lruList := key # lruList c1, cache := AList.update key ?e (cache c1)\<rparr>)
          \<lparr>totalOperations := totalOperations c1 + 1\<rparr>"
      by (simp add: put_ttl_def None c1_def [symmetric] Let_def)
    show ?thesis
      using insert_inv(1,2) [OF c1(1) nk, of ?e] l1 c1(2)
      by (simp add: eq bounded_def consistent_def)
  qed
  show "allocatedSize (put_ttl c now key v ttl) = allocatedSize c"
    using evictLRU_inv(2) [OF con]
    by (cases "map_of (cache c) key") (simp_all add: put_ttl_def Let_def)
qed

lemma remove_bounded:
  assumes "bounded c"
  shows "bounded (remove c key)"
proof (cases "map_of (cache c) key")
  case None
  then show ?thesis using assms by (simp add: remove_def)
next
  case (Some e)
  have con: "consistent c" and le: "length (cache c) \<le> max 1 (allocatedSize c)"
    using assms by (simp_all add: bounded_def)
  have k: "map fst (AList.delete key (cache c)) = removeAll key (map fst (cache c))"
    by (simp add: delete_keys)
  have "length (map fst (AList.delete key (cache c))) \<le> length (map fst (cache c))"
    unfolding k by (rule length_removeAll_less_eq)
  then have l: "length (AList.delete key (cache c)) \<le> length (cache c)" by simp
  have "consistent (remove c key)"
    using con by (auto simp: remove_def Some consistent_def k distinct_removeAll
        distinct_remove1_removeAll)
  then show ?thesis
    using l le by (simp add: bounded_def remove_def Some)
qed

lemma fold_notify_fields:
  "allocatedSize (fold (\<lambda>(key, e) c'. notify c' key (edata e)) xs c) = allocatedSize c"
  by (induction xs arbitrary: c) (auto simp: split_def)

lemma clear_bounded: "bounded (clear enumeration c)"
  by (simp add: bounded_def clear_def consistent_def)

lemma resize_loop_inv:
  assumes "consistent c"
  shows "consistent (resize_loop n c) \<and> allocatedSize (resize_loop n c) = allocatedSize c
         \<and> length (cache (resize_loop n c)) = length (cache c) - n"
  using assms
proof (induction n arbitrary: c)
  case 0
  then show ?case by simp
next
  case (Suc n)
  show ?case
  proof (cases "lruList c = []")
    case True
    then show ?thesis
      using Suc.prems consistent_empty_iff [OF Suc.prems] by simp
  next
    case False
    from Suc.IH [OF evictBack_inv(1) [OF Suc.prems False]]
      evictBack_inv(2,3) [OF Suc.prems False] False
    show ?thesis by auto
  qed
qed

lemma resize_bounded:
  assumes "bounded c"
  shows "bounded (resize c newSize)" and "allocatedSize (resize c newSize) = newSize"
proof -
  have con: "consistent c" using assms by (simp add: bounded_def)
  show "allocatedSize (resize c newSize) = newSize"
    by (simp add: resize_def Let_def)
  show "bounded (resize c newSize)"
    using con resize_loop_inv [OF con, of "length (cache c) - newSize"]
    by (auto simp: resize_def Let_def bounded_def consistent_def)
qed

lemma batchPut_step_eq:
  "batchPut_step now ttl (key, v) c = (put_ttl c now key v ttl)\<lparr>totalOperations := totalOperations c\<rparr>"
  by (cases "map_of (cache c) key")
     (auto simp: batchPut_step_def put_ttl_def evictLRU_def Let_def evictBack_def
           split: option.splits)

lemma bounded_totalOperations [simp]: "bounded (c\<lparr>totalOperations := n\<rparr>) = bounded c"
  by (simp add: bounded_def consistent_def)

lemma fold_batchPut_bounded:
  "bounded c \<Longrightarrow> bounded (fold (batchPut_step now ttl) kvs c)"
proof (induction kvs arbitrary: c)
  case Nil
  then show ?case by simp
next
  case (Cons kv kvs)
  obtain key v where kv: "kv = (key, v)" by (cases kv) auto
  have "bounded (batchPut_step now ttl kv c)"
    using put_ttl_bounded(1) [OF Cons.prems] by (simp add: kv batchPut_step_eq)
  from Cons.IH [OF this] show ?case by simp
qed

lemma batchPut_bounded: "bounded c \<Longrightarrow> bounded (batchPut c now kvs ttl)"
  using fold_batchPut_bounded [of c now ttl kvs] by (simp add: batchPut_def Let_def)

lemma get_bounded:
  assumes "bounded c"
  shows "bounded (snd (get c now key))"
proof (cases "map_of (cache c) key")
  case None
  then show ?thesis using assms by (simp add: get_def)
next
  case (Some e)
  have con: "consistent c" and le: "length (cache c) \<le> max 1 (allocatedSize c)"
    using assms by (simp_all add: bounded_def)
  show ?thesis
    using remove_bounded [OF assms, of key] touch_inv [OF con Some, of "e\<lparr>lastAccess := now\<rparr>"] le
    by (simp add: get_def Some bounded_def consistent_def)
qed

lemma setEvictionCallback_bounded: "bounded c \<Longrightarrow> bounded (setEvictionCallback c)"
  by (simp add: setEvictionCallback_def bounded_def consistent_def)

lemma apply_op_bounded: "bounded c \<Longrightarrow> bounded (apply_op c op)"
proof -
  assume b: "bounded c"
  obtain now o' where op: "op = (now, o')" by (cases op) auto
  show ?thesis
    unfolding op using b
    by (cases o') (simp_all add: put_def put_ttl_bounded remove_bounded clear_bounded
        resize_bounded batchPut_bounded get_bounded setEvictionCallback_bounded)
qed

lemma run_ops_bounded: "bounded c \<Longrightarrow> bounded (run_ops c ops)"
  unfolding run_ops_def
  by (induction ops arbitrary: c) (simp_all add: apply_op_bounded)

lemma new_bounded: "bounded (DynamicCache_new n ttl)"
  by (simp add: bounded_def consistent_def DynamicCache_new_def)

lemma evictBack_eq:
  assumes "consistent c" and "lruList c \<noteq> []"
  shows "\<exists>e. map_of (cache c) (last (lruList c)) = Some e \<and>
           evictBack c = (notify c (last (lruList c)) (edata e))
               \<lparr>cache := AList.delete (last (lruList c)) (cache c), lruList := butlast (lruList c),
                evictions := evictions c + 1\<rparr>"
proof -
  have "last (lruList c) \<in> set (lruList c)" using assms(2) by simp
  then obtain e where e: "map_of (cache c) (last (lruList c)) = Some e"
    using consistent_lookup [OF assms(1), of "last (lruList c)"] by auto
  then show ?thesis by (simp add: evictBack_def Let_def)
qed

lemma put_ttl_full:
  assumes con: "consistent c" and miss: "map_of (cache c) key = None"
    and full: "size_c c = allocatedSize c" and pos: "0 < allocatedSize c"
  shows "\<exists>e. map_of (cache c) (last (lruList c)) = Some e \<and>
           lruList (put_ttl c now key v t) = key # butlast (lruList c) \<and>
           map fst (cache (put_ttl c now key v t))
             = removeAll (last (lruList c)) (map fst (cache c)) @ [key] \<and>
           size_c (put_ttl c now key v t) = allocatedSize c \<and>
           evictions (put_ttl c now key v t) = evictions c + 1 \<and>
           callbackLog (put_ttl c now key v t)
             = (if evictionCallback c then callbackLog c @ [(last (lruList c), edata e)]
                else callbackLog c)"
proof -
  let ?e = "\<lparr>edata = v, lastAccess = now, ttlSeconds = t\<rparr>"
  have ne: "lruList c \<noteq> []"
    using consistent_empty_iff [OF con] full pos by (auto simp: size_c_def)
  obtain e where e: "map_of (cache c) (last (lruList c)) = Some e"
    and eq: "evictBack c = (notify c (last (lruList c)) (edata e))
               \<lparr>cache := AList.delete (last (lruList c)) (cache c), lruList := butlast (lruList c),
                evictions := evictions c + 1\<rparr>"
    using evictBack_eq [OF con ne] by blast
  have p: "put_ttl c now key v t =
      (evictBack c\<lparr>lruList := key # lruList (evictBack c),
                   cache := AList.update key ?e (cache (evictBack c))\<rparr>)
         \<lparr>totalOperations := totalOperations (evictBack c) + 1\<rparr>"
    using full ne by (simp add: put_ttl_def miss evictLRU_def size_c_def Let_def)
  have c1: "consistent (evictBack c)" "Suc (length (cache (evictBack c))) = length (cache c)"
    "lruList (evictBack c) = butlast (lruList c)"
    "map fst (cache (evictBack c)) = removeAll (last (lruList c)) (map fst (cache c))"
    using evictBack_inv [OF con ne] by simp_all
  have nk: "key \<notin> set (lruList (evictBack c))"
    using consistent_lookup [OF con, of key] miss c1(3) by (auto dest: in_set_butlastD)
  have i: "length (AList.update key ?e (cache (evictBack c))) = Suc (length (cache (evictBack c)))"
    "map fst (AList.update key ?e (cache (evictBack c))) = map fst (cache (evictBack c)) @ [key]"
    using insert_inv(2,3) [OF c1(1) nk, of ?e] by simp_all
  have ev: "evictions (evictBack c) = evictions c + 1"
    "callbackLog (evictBack c) = (if evictionCallback c
        then callbackLog c @ [(last (lruList c), edata e)] else callbackLog c)"
    by (simp_all add: eq notify_def)
  show ?thesis
    using e c1 i ev full by (simp add: p size_c_def)
qed

text \<open>
  Claim C3, amended (capacity). Let \<open>c\<close> be the cache reached from a new cache of any
  initial capacity by any sequence of put, batch_put, remove, clear, resize (and get and
  set_eviction_callback) operations. Then map and LRU list of \<open>c\<close> hold the same keys, the
  number of entries is at most \<open>max 1 capacity\<close>, hence at most the capacity whenever the
  capacity is at least 1; and an insert of a new key into \<open>c\<close> when its size equals a
  capacity of at least 1 evicts exactly one entry, the LRU tail, before the insert (the
  callback, if installed, is called once, on that entry). A cache of capacity 0 holds
  up to one entry.
\<close>
theorem capacity_bound:
  assumes "c = run_ops (DynamicCache_new cap ttl) ops"
  shows "size_c c \<le> max 1 (allocatedSize c) \<and>
         (0 < allocatedSize c \<longrightarrow> size_c c \<le> allocatedSize c) \<and>
         consistent c \<and>
         (map_of (cache c) key = None \<and> size_c c = allocatedSize c \<and> 0 < allocatedSize c \<longrightarrow>
            (\<exists>e. map_of (cache c) (last (lruList c)) = Some e \<and>
               lruList (put_ttl c now key v t) = key # butlast (lruList c) \<and>
               map fst (cache (put_ttl c now key v t))
                 = removeAll (last (lruList c)) (map fst (cache c)) @ [key] \<and>
               size_c (put_ttl c now key v t) = allocatedSize c \<and>
               evictions (put_ttl c now key v t) = evictions c + 1 \<and>
               callbackLog (put_ttl c now key v t)
                 = (if evictionCallback c then callbackLog c @ [(last (lruList c), edata e)]
                    else callbackLog c)))"
proof -
  have b: "bounded c"
    unfolding assms by (rule run_ops_bounded [OF new_bounded])
  then have con: "consistent c" and le: "size_c c \<le> max 1 (allocatedSize c)"
    by (simp_all add: bounded_def size_c_def)
  show ?thesis
    using con le put_ttl_full [OF con, of key now v t] by auto
qed

text \<open>Scenario S1: capacity 1, \<open>put a\<close> then \<open>put b\<close> evicts \<open>a\<close>.\<close>
theorem capacity_bound_witness:
  "size_c (run_ops (DynamicCache_new 1 0) [(0, SetEvictionCallback), (0, Put ''a'' (1::nat))]) = 1 \<and>
   lruList (put_ttl (run_ops (DynamicCache_new 1 0) [(0, SetEvictionCallback), (0, Put ''a'' (1::nat))])
      1 ''b'' 2 0) = [''b''] \<and>
   callbackLog (put_ttl (run_ops (DynamicCache_new 1 0) [(0, SetEvictionCallback), (0, Put ''a'' (1::nat))])
      1 ''b'' 2 0) = [(''a'', 1)]"
proof -
  define c where "c = run_ops (DynamicCache_new 1 0) [(0, SetEvictionCallback), (0, Put ''a'' (1::nat))]"
  have v: "cache c = [(''a'', \<lparr>edata = 1, lastAccess = 0, ttlSeconds = 0\<rparr>)]"
    "lruList c = [''a'']" "allocatedSize c = 1" "evictionCallback c" "callbackLog c = []"
    by (simp_all add: c_def run_ops_def DynamicCache_new_def setEvictionCallback_def put_def
        put_ttl_def)
  have h: "map_of (cache c) ''b'' = None \<and> size_c c = allocatedSize c \<and> 0 < allocatedSize c"
    by (simp add: v size_c_def)
  from capacity_bound [OF c_def, of "''b''" 1 2 0] h v
  show ?thesis
    unfolding c_def [symmetric] by (auto simp: size_c_def)
qed

text \<open>
  The claim as stated fails for initial capacity 0: the first put finds nothing to evict
  and inserts, leaving one entry in a cache of capacity 0.
\<close>
theorem capacity_bound_counterexample:
  "size_c (run_ops (DynamicCache_new 0 0) [(0, Put ''a'' (1::nat))]) = 1 \<and>
   allocatedSize (run_ops (DynamicCache_new 0 0) [(0, Put ''a'' (1::nat))]) = 0 \<and>
   evictions (run_ops (DynamicCache_new 0 0) [(0, Put ''a'' (1::nat))]) = 0"
  by (simp add: run_ops_def DynamicCache_new_def put_def put_ttl_def evictLRU_def size_c_def)

section \<open>Properties of the recovery manager\<close>










































lemma hex2_length: "length (hex2 b) = 2"
  by (simp add: hex2_def)

lemma calculateChecksum_nonempty: "calculateChecksum H bytes \<noteq> []"
proof -
  have "[0..<32] = 0 # [1..<32]" by (simp add: upt_conv_Cons)
  then have "calculateChecksum H bytes = hex2 (H bytes 0) @ concat (map (\<lambda>i. hex2 (H bytes i)) [1..<32])"
    by (simp add: calculateChecksum_def)
  then show ?thesis
    by (simp add: hex2_def)
qed

lemma validateState_validator_iff: "validateState_validator H st = (st \<noteq> [])"
  by (simp add: validateState_validator_def calculateChecksum_nonempty)






lemma decode_AQID: "base64_decode ''AQID'' = [1, 2, 3]"
  by code_simp

lemma forged_fields:
  "enableStateValidation (config forgedManager)"
  "\<not> enableCompression (pointConfig (config forgedManager))"
  "map_of (files (fs forgedManager)) (pointPath (checkpointConfig forgedManager) ''p'')
     = Some \<lparr> j_id = ''p'', j_timestamp = 0, j_state = ''AQID'', j_size = 3, j_isConsistent = True,
         j_checksum = ''bad'', j_metadata = [] \<rparr>"
  "stateRestoreCallback forgedManager = Some (\<lambda>bytes. True)"
  "restored forgedManager = []"
  by (simp_all add: forgedManager_def forgedWorld_def testManager_def testWorld_def
      setStateRestoreCallback_def RecoveryManager_new_def testConfig_def testPointConfig_def
      pointPath_def path_append_def)
















text \<open>
  Claim C2, amended (validation on restore). With state validation enabled,
  \<open>restore_from_point\<close> on a stored point decodes (and, if configured, decompresses) its
  state \<open>st\<close> and checks only that \<open>st\<close> is not empty: the restore succeeds exactly when
  \<open>st\<close> is not empty and the restore callback, if installed, accepts \<open>st\<close>; the callback
  is called exactly when \<open>st\<close> is not empty. The stored checksum takes no part: the state
  read from a document does not depend on its checksum field, and the result does not
  mention it.
\<close>

theorem restore_validation:
  assumes "enableStateValidation (config m)"
    and "map_of (files (fs m)) (pointPath (checkpointConfig m) pid) = Some j"
    and "st = (if enableCompression (pointConfig (config m))
               then decompressState (state (fromJson j)) else state (fromJson j))"
  shows "fst (restoreFromPoint H m pid)
           = (st \<noteq> [] \<and> (case stateRestoreCallback m of None \<Rightarrow> True | Some cb \<Rightarrow> cb st)) \<and>
         restored (snd (restoreFromPoint H m pid))
           = (if st \<noteq> [] \<and> stateRestoreCallback m \<noteq> None then restored m @ [st] else restored m) \<and>
         state (fromJson (j\<lparr>j_checksum := c\<rparr>)) = state (fromJson j)"
proof -
  have ld: "loadCheckpoint (checkpointConfig m) (fs m) pid = Some (fromJson j)"
    using assms(2) by (simp add: loadCheckpoint_def)
  show ?thesis
    using assms(1)
    by (cases "stateRestoreCallback m")
       (auto simp: restoreFromPoint_def ld assms(3) Let_def validateState_validator_iff
          restoreFailed_def handleError_def fromJson_def)
qed

text \<open>A stored point whose checksum field is \<open>bad\<close> and whose state is \<open>[1, 2, 3]\<close>.\<close>

theorem restore_validation_witness:
  "\<forall>H. fst (restoreFromPoint H forgedManager ''p'') \<and>
        restored (snd (restoreFromPoint H forgedManager ''p'')) = [[1, 2, 3]]"
proof
  fix H
  let ?j = "\<lparr> j_id = ''p'', j_timestamp = 0, j_state = ''AQID'', j_size = 3, j_isConsistent = True,
         j_checksum = ''bad'', j_metadata = [] \<rparr>"
  have st: "[1, 2, 3] = (if enableCompression (pointConfig (config forgedManager))
               then decompressState (state (fromJson ?j)) else state (fromJson ?j))"
    by (simp add: forged_fields(2) fromJson_def decode_AQID)
  from restore_validation [OF forged_fields(1) forged_fields(3) st, of H]
  show "fst (restoreFromPoint H forgedManager ''p'') \<and>
        restored (snd (restoreFromPoint H forgedManager ''p'')) = [[1, 2, 3]]"
    by (simp add: forged_fields(4,5))
qed

text \<open>
  The claim as stated fails: whatever the hash function, the stored checksum \<open>bad\<close>
  differs from the checksum of the state, validation is enabled, and the restore
  succeeds and delivers the state.
\<close>

theorem restore_validation_counterexample:
  "\<forall>H. j_checksum (the (map_of (files (fs forgedManager))
                (pointPath (checkpointConfig forgedManager) ''p'')))
          \<noteq> calculateChecksum H [1, 2, 3] \<and>
        enableStateValidation (config forgedManager) \<and>
        fst (restoreFromPoint H forgedManager ''p'') \<and>
        restored (snd (restoreFromPoint H forgedManager ''p'')) = [[1, 2, 3]]"
proof
  fix H
  have ld: "loadCheckpoint (checkpointConfig forgedManager) (fs forgedManager) ''p''
      = Some (fromJson \<lparr> j_id = ''p'', j_timestamp = 0, j_state = ''AQID'', j_size = 3,
          j_isConsistent = True, j_checksum = ''bad'', j_metadata = [] \<rparr>)"
    by (simp add: loadCheckpoint_def forged_fields(3))
  have len: "length (calculateChecksum H [1, 2, 3]) = 64"
    by (simp add: calculateChecksum_def length_concat comp_def hex2_length sum_list_triv)
  have ne: "''bad'' \<noteq> calculateChecksum H [1, 2, 3]"
  proof
    assume "''bad'' = calculateChecksum H [1, 2, 3]"
    then have "length ''bad'' = length (calculateChecksum H [1, 2, 3])"
      by simp
    then show False
      by (simp add: len)
  qed
  show "j_checksum (the (map_of (files (fs forgedManager))
                (pointPath (checkpointConfig forgedManager) ''p'')))
          \<noteq> calculateChecksum H [1, 2, 3] \<and>
        enableStateValidation (config forgedManager) \<and>
        fst (restoreFromPoint H forgedManager ''p'') \<and>
        restored (snd (restoreFromPoint H forgedManager ''p'')) = [[1, 2, 3]]"
    using ne
    by (simp add: forged_fields restoreFromPoint_def ld Let_def fromJson_def decode_AQID
        validateState_validator_iff)
qed


lemma emptyPathConfig_fields:
  "storagePath (pointConfig emptyPathConfig) = []"
  "maxRecoveryPoints emptyPathConfig \<noteq> 0"
  "0 < checkpointInterval emptyPathConfig"
  "maxSize (pointConfig emptyPathConfig) \<noteq> 0"
  by (simp_all add: emptyPathConfig_def testConfig_def testPointConfig_def)

lemma initialize_again: "initialized m \<Longrightarrow> initialize host m = (True, m)"
  by (simp add: initialize_def)




text \<open>
  The claim as stated fails on a manager whose flag \<open>initialized\<close> is set. Such a manager
  is what \<open>initialize\<close> leaves behind, and \<open>setConfiguration\<close> can then give it a
  configuration with an empty storage path; it is also what the constructor yields
  when the flag it does not initialise happens to hold true. In both cases
  \<open>initialize\<close> returns true, nothing is substituted, and the manager is left with the
  empty path, which \<open>validate\<close> rejects.
\<close>

theorem initialize_empty_storage_path_counterexample:
  "fst (initialize testHost (RecoveryManager_new testConfig testGen testWorld False)) \<and>
   initialize testHost
     (setConfiguration (\<lambda>points. points)
        (snd (initialize testHost (RecoveryManager_new testConfig testGen testWorld False)))
        emptyPathConfig)
     = (True, setConfiguration (\<lambda>points. points)
                (snd (initialize testHost (RecoveryManager_new testConfig testGen testWorld False)))
                emptyPathConfig) \<and>
   storagePath (pointConfig (config
     (setConfiguration (\<lambda>points. points)
        (snd (initialize testHost (RecoveryManager_new testConfig testGen testWorld False)))
        emptyPathConfig))) = [] \<and>
   initialize testHost (RecoveryManager_new emptyPathConfig testGen testWorld True)
     = (True, RecoveryManager_new emptyPathConfig testGen testWorld True) \<and>
   storagePath (pointConfig (config (RecoveryManager_new emptyPathConfig testGen testWorld True))) = [] \<and>
   \<not> validate_recovery emptyPathConfig"
proof -
  let ?m0 = "RecoveryManager_new testConfig testGen testWorld False"
  have i: "initialize testHost ?m0
      = (True, ?m0\<lparr>checkpointConfig := testPointConfig, threadPool := True, initialized := True\<rparr>)"
    by (simp add: initialize_def initialize_try_def RecoveryManager_new_def testConfig_def
        testPointConfig_def testWorld_def testHost_def exists_fs_def validate_recovery_def
        ensureDirectoryExists_def Let_def)
  let ?m1 = "?m0\<lparr>checkpointConfig := testPointConfig, threadPool := True, initialized := True\<rparr>"
  have s: "setConfiguration (\<lambda>points. points) ?m1 emptyPathConfig = ?m1\<lparr>config := emptyPathConfig\<rparr>"
    by (simp add: setConfiguration_def cleanupOldPoints_def RecoveryManager_new_def)
  have f: "initialized (?m1\<lparr>config := emptyPathConfig\<rparr>)"
    by simp
  have g: "initialized (RecoveryManager_new emptyPathConfig testGen testWorld True)"
    by (simp add: RecoveryManager_new_def)
  have v: "\<not> validate_recovery emptyPathConfig"
    by (simp add: validate_recovery_def emptyPathConfig_fields)
  have 1: "fst (initialize testHost ?m0)"
    by (simp only: i fst_conv)
  have 2: "initialize testHost (setConfiguration (\<lambda>points. points) (snd (initialize testHost ?m0))
             emptyPathConfig)
      = (True, setConfiguration (\<lambda>points. points) (snd (initialize testHost ?m0)) emptyPathConfig)"
    by (simp only: i snd_conv s initialize_again [OF f])
  have 3: "storagePath (pointConfig (config
             (setConfiguration (\<lambda>points. points) (snd (initialize testHost ?m0)) emptyPathConfig))) = []"
    by (simp only: i snd_conv s) (simp add: emptyPathConfig_fields)
  have 4: "initialize testHost (RecoveryManager_new emptyPathConfig testGen testWorld True)
      = (True, RecoveryManager_new emptyPathConfig testGen testWorld True)"
    by (rule initialize_again [OF g])
  have 5: "storagePath (pointConfig (config (RecoveryManager_new emptyPathConfig testGen testWorld True))) = []"
    by (simp add: RecoveryManager_new_def emptyPathConfig_fields)
  from 1 2 3 4 5 v show ?thesis
    by blast
qed
end
